theory Spec2Isabelle
  imports Main "HOL-Library.Monad_Syntax" "HOL-Library.Word"
begin

section \<open>confreader: the data model\<close>

text \<open>
  The theory embeds \<^verbatim>\<open>confreader.h\<close> (the plain C variant; \<^verbatim>\<open>confreader.hpp\<close> holds the same
  code as member functions, without the call of \<^verbatim>\<open>init\<close> inside \<^verbatim>\<open>parseFile\<close>).

  \<^item> A byte is a \<^typ>\<open>char\<close>; the file buffer is a \<^typ>\<open>string\<close> whose length is the
    allocated size \<^verbatim>\<open>fileBufSize\<close>.
  \<^item> A \<^verbatim>\<open>char *\<close> into the buffer is the offset of the byte it points to; \<^verbatim>\<open>NULL\<close> is
    \<^const>\<open>None\<close>. A \<^verbatim>\<open>ConfreaderParam *\<close> into the parameter table is an index of that table.
  \<^item> A table obtained from \<^verbatim>\<open>malloc\<close> is a list of slots; a slot that was never written is
    \<^const>\<open>None\<close>.
  \<^item> Behaviour that C leaves undefined (a read or write outside an array, a read of a slot
    never written, a dereferenced \<^verbatim>\<open>NULL\<close>, overflow of the \<^verbatim>\<open>int\<close> index) is the result
    \<^const>\<open>None\<close> of the function that would do it; every defined run is \<open>Some\<close> result.
  \<^item> The C \<^verbatim>\<open>int\<close> counters only count up from zero and are bounded by the buffer size, so
    they are natural numbers; the buffer size is required to fit an \<^verbatim>\<open>int\<close>.
\<close>

abbreviation NUL :: char where "NUL \<equiv> CHR 0x00"
abbreviation HT :: char where "HT \<equiv> CHR 0x09"
abbreviation LF :: char where "LF \<equiv> CHR 0x0A"
abbreviation CR :: char where "CR \<equiv> CHR 0x0D"

definition INT_MAX :: nat where
  "INT_MAX = 2147483647"

abbreviation CONFREADER_OK :: int where "CONFREADER_OK \<equiv> 0"
abbreviation CONFREADER_ERROR :: int where "CONFREADER_ERROR \<equiv> - 1"
abbreviation CONFREADER_EREADFILE :: int where "CONFREADER_EREADFILE \<equiv> 1"
abbreviation CONFREADER_EPARSINGFILE :: int where "CONFREADER_EPARSINGFILE \<equiv> 2"
abbreviation CONFREADER_ENOSECT :: int where "CONFREADER_ENOSECT \<equiv> 3"
abbreviation CONFREADER_ENOPARAM :: int where "CONFREADER_ENOPARAM \<equiv> 4"
abbreviation CONFREADER_EINVVAL :: int where "CONFREADER_EINVVAL \<equiv> 5"
abbreviation CONFREADER_EBUSY :: int where "CONFREADER_EBUSY \<equiv> 6"
abbreviation CONFREADER_ENOMEM :: int where "CONFREADER_ENOMEM \<equiv> 7"

record ConfreaderParam =
  p_key :: nat
  p_value :: nat

record ConfreaderSection =
  s_size :: nat
  s_name :: "nat option"
  s_params :: "nat option"

text \<open>
  The global variables of \<^verbatim>\<open>confreader.h\<close>, under their own names. Two more fields
  account for what the C library holds for the program: \<open>heap_blocks\<close> counts the blocks
  obtained from \<^verbatim>\<open>malloc\<close> and not yet given to \<^verbatim>\<open>free\<close>, \<open>open_fds\<close> the descriptors
  obtained from \<^verbatim>\<open>open\<close> and not yet closed.
\<close>

record confreader =
  confreader_fileBuf :: "string option"
  confreader_lines :: "nat option list option"
  confreader_lineCount :: nat
  confreader_params :: "ConfreaderParam option list option"
  confreader_paramCount :: nat
  confreaderErrorNum :: int
  confreaderErrorLineNum :: nat
  confreaderSects :: "ConfreaderSection option list option"
  confreaderSectCount :: nat
  heap_blocks :: nat
  open_fds :: nat

text \<open>
  What the operating system and the allocator answer during one call of
  \<^verbatim>\<open>confreaderParseFile\<close>: whether \<^verbatim>\<open>open\<close> and \<^verbatim>\<open>fstat\<close> succeed, the size \<^verbatim>\<open>fstat\<close>
  reports, the bytes \<^verbatim>\<open>read\<close> delivers (at most the number asked for; an error of \<^verbatim>\<open>read\<close>
  delivers none), and whether each of the four \<^verbatim>\<open>malloc\<close> calls returns a block.
\<close>

datatype alloc_site = BufBlock | LinesBlock | ParamsBlock | SectsBlock

record sys =
  open_ok :: bool
  fstat_ok :: bool
  st_size :: nat
  read_delivers :: string
  malloc_ok :: "alloc_site \<Rightarrow> bool"

text \<open>An inner loop is left by \<^verbatim>\<open>break\<close> or by its condition (\<open>Goes\<close>), or by \<^verbatim>\<open>return\<close>.\<close>

datatype 'a exit = Goes 'a | Return

text \<open>The two passes end with their results or with what a parse failure leaves behind.\<close>

datatype ('a, 'e) outcome = Ok 'a | ParseFail 'e

section \<open>Reading the buffer\<close>

definition rd :: "'a list \<Rightarrow> nat \<Rightarrow> 'a option" where
  "rd xs i = (if i < length xs then Some (xs ! i) else None)"

definition slot :: "'a option list \<Rightarrow> nat \<Rightarrow> 'a option" where
  "slot xs i = (if i < length xs then xs ! i else None)"

definition blank :: "char \<Rightarrow> bool" where
  "blank c \<longleftrightarrow> c = CHR '' '' \<or> c = HT"

definition separator :: "char \<Rightarrow> bool" where
  "separator c \<longleftrightarrow> c = CHR ''='' \<or> c = CHR '' '' \<or> c = HT"

definition marker :: "char \<Rightarrow> bool" where
  "marker c \<longleftrightarrow> c = CHR ''#'' \<or> c = CHR '';''"

text \<open>The string a \<^verbatim>\<open>char *\<close> at offset \<open>i\<close> denotes: the bytes up to the next terminator.
  Without a terminator in the buffer the read leaves the buffer.\<close>

definition cstr :: "string \<Rightarrow> nat \<Rightarrow> string option" where
  "cstr buf i =
     (if NUL \<in> set (drop i buf) then Some (takeWhile (\<lambda>c. c \<noteq> NUL) (drop i buf)) else None)"

section \<open>confreaderInit and confreaderClear\<close>

definition confreaderInit :: "confreader \<Rightarrow> confreader" where
  "confreaderInit d =
     d\<lparr>confreaderSectCount := 0, confreaderSects := None, confreader_params := None,
       confreader_lines := None, confreader_fileBuf := None,
       confreaderErrorNum := 0, confreaderErrorLineNum := 0\<rparr>"

definition free_sects :: "confreader \<Rightarrow> confreader" where
  "free_sects d = (if confreaderSects d \<noteq> None
     then d\<lparr>heap_blocks := heap_blocks d - 1, confreaderSects := None\<rparr> else d)"

definition free_params :: "confreader \<Rightarrow> confreader" where
  "free_params d = (if confreader_params d \<noteq> None
     then d\<lparr>heap_blocks := heap_blocks d - 1, confreader_params := None\<rparr> else d)"

definition free_lines :: "confreader \<Rightarrow> confreader" where
  "free_lines d = (if confreader_lines d \<noteq> None
     then d\<lparr>heap_blocks := heap_blocks d - 1, confreader_lines := None\<rparr> else d)"

definition free_fileBuf :: "confreader \<Rightarrow> confreader" where
  "free_fileBuf d = (if confreader_fileBuf d \<noteq> None
     then d\<lparr>heap_blocks := heap_blocks d - 1, confreader_fileBuf := None\<rparr> else d)"

definition confreaderClear :: "confreader \<Rightarrow> confreader" where
  "confreaderClear d =
     free_fileBuf (free_lines (free_params (free_sects (d\<lparr>confreaderSectCount := 0\<rparr>))))"

section \<open>confreaderParseFile: the loops\<close>

text \<open>\<^verbatim>\<open>for(i=0; i<fileBufSize; i++) if(buf[i] == 0x0A) lineCount++;\<close>\<close>

function count_lines :: "string \<Rightarrow> nat \<Rightarrow> nat \<Rightarrow> nat" where
  "count_lines buf i n =
     (if i < length buf then count_lines buf (i + 1) (if buf ! i = LF then n + 1 else n)
      else n)"
  by pat_completeness auto
termination
  by (relation "measure (\<lambda>(buf, i, n). length buf - i)") auto

declare count_lines.simps [simp del]

text \<open>\<^verbatim>\<open>for(; i<fileBufSize; i++) if(buf[i] != ' ' && buf[i] != 0x09) break;\<close>\<close>

function skip_blank :: "string \<Rightarrow> nat \<Rightarrow> nat" where
  "skip_blank buf i =
     (if i < length buf then (if \<not> blank (buf ! i) then i else skip_blank buf (i + 1))
      else i)"
  by pat_completeness auto
termination
  by (relation "measure (\<lambda>(buf, i). length buf - i)") auto

text \<open>
  The scan for the end of the line in pass 1 (lines 191 to 209). A carriage return is
  overwritten, the index advances, and the next byte must be a line feed: otherwise the
  function returns. The read of that next byte is outside the buffer when the carriage
  return is its last byte.
\<close>

declare skip_blank.simps [simp del]

function scan_eol :: "string \<Rightarrow> nat \<Rightarrow> (string \<times> nat) exit option" where
  "scan_eol buf i =
     (if i < length buf then
        (if buf ! i = CR then
           (case rd (buf[i := NUL]) (i + 1) of
              None \<Rightarrow> None
            | Some c \<Rightarrow>
                if c \<noteq> LF then Some Return
                else Some (Goes ((buf[i := NUL])[i + 1 := NUL], i + 1)))
         else if buf ! i = LF then Some (Goes (buf[i := NUL], i))
         else scan_eol buf (i + 1))
      else Some (Goes (buf, i)))"
  by pat_completeness auto
termination
  by (relation "measure (\<lambda>(buf, i). length buf - i)") auto


declare scan_eol.simps [simp del]

lemma skip_blank_ge: "i \<le> skip_blank buf i"
proof (induction buf i rule: skip_blank.induct)
  case (1 buf i)
  show ?case
  proof (cases "i < length buf \<and> blank (buf ! i)")
    case True
    with "1.IH" have "i + 1 \<le> skip_blank buf (i + 1)" by simp
    with True show ?thesis by (subst skip_blank.simps) simp
  next
    case False
    then show ?thesis by (subst skip_blank.simps) auto
  qed
qed

lemma scan_eol_Goes:
  "scan_eol buf i = Some (Goes (buf', i')) \<Longrightarrow> length buf' = length buf \<and> i \<le> i'"
proof (induction buf i rule: scan_eol.induct)
  case (1 buf i)
  show ?case
  proof (cases "i < length buf \<and> buf ! i \<noteq> CR \<and> buf ! i \<noteq> LF")
    case True
    with "1.prems" have "scan_eol buf (i + 1) = Some (Goes (buf', i'))"
      by (subst (asm) scan_eol.simps) simp
    with "1.IH" True show ?thesis by fastforce
  next
    case False
    with "1.prems" show ?thesis
      by (subst (asm) scan_eol.simps) (auto split: if_splits option.splits)
  qed
qed

text \<open>
  The two counters of pass 1 (lines 183 to 189), as they stand after a line whose first
  byte behind the leading blanks is \<open>c\<close>.
\<close>

definition tally_section :: "char \<Rightarrow> nat \<Rightarrow> nat" where
  "tally_section c sectCount = (if c = CHR ''['' then sectCount + 1 else sectCount)"

definition tally_param :: "char \<Rightarrow> nat \<Rightarrow> nat" where
  "tally_param c paramCount =
     (if c = CHR ''['' then paramCount
      else if c \<noteq> CHR ''#'' \<and> c \<noteq> CHR '';'' \<and> c \<noteq> LF \<and> c \<noteq> CR then paramCount + 1
      else paramCount)"

text \<open>
  Pass 1 (lines 174 to 210): one iteration per line. It skips the leading blanks, stores
  the offset in \<^verbatim>\<open>confreader_lines[lineIdx++]\<close>, counts a section header or a parameter line
  by the first byte, and ends the line in place. The failure reports \<^verbatim>\<open>lineIdx\<close> after its
  increment, and leaves \<^verbatim>\<open>confreader_paramCount\<close> as counted so far (the other globals it
  wrote are reset by \<^verbatim>\<open>confreaderClear\<close>).
\<close>

function line_splitter ::
  "string \<Rightarrow> nat option list \<Rightarrow> nat \<Rightarrow> nat \<Rightarrow> nat \<Rightarrow> nat \<Rightarrow>
   (string \<times> nat option list \<times> nat \<times> nat, nat \<times> nat) outcome option" where
  "line_splitter buf lines lineIdx sectCount paramCount i =
     (if i < length buf then
        (let i1 = skip_blank buf i in
         if lineIdx < length lines then
           (case rd buf i1 of
              None \<Rightarrow> None
            | Some c \<Rightarrow>
                (let sectCount' = tally_section c sectCount;
                     paramCount' = tally_param c paramCount
                 in case scan_eol buf i1 of
                   None \<Rightarrow> None
                 | Some Return \<Rightarrow> Some (ParseFail (lineIdx + 1, paramCount'))
                 | Some (Goes (buf', i2)) \<Rightarrow>
                     line_splitter buf' (lines[lineIdx := Some i1]) (lineIdx + 1)
                       sectCount' paramCount' (i2 + 1)))
         else None)
      else Some (Ok (buf, lines, sectCount, paramCount)))"
  by pat_completeness auto
termination
proof (relation "measure (\<lambda>(buf, lines, lineIdx, sectCount, paramCount, i). length buf - i)",
    goal_cases)
  case 1
  show ?case by simp
next
  case (2 buf lines lineIdx sectCount paramCount i i1 c sc pc r x buf' i2)
  from 2 have "scan_eol buf (skip_blank buf i) = Some (Goes (buf', i2))" by simp
  from scan_eol_Goes [OF this] skip_blank_ge [of i buf] 2 show ?case by auto
qed

declare line_splitter.simps [simp del]


text \<open>The scan for the closing bracket of a section header (lines 244 to 255).\<close>

function find_close :: "string \<Rightarrow> nat \<Rightarrow> (string \<times> nat) exit" where
  "find_close buf i =
     (if i < length buf then
        (if buf ! i = CHR '']'' then Goes (buf[i := NUL], i + 1)
         else if buf ! i = NUL then Return
         else find_close buf (i + 1))
      else Goes (buf, i))"
  by pat_completeness auto
termination
  by (relation "measure (\<lambda>(buf, i). length buf - i)") auto

declare find_close.simps [simp del]

text \<open>The scan for the end of the parameter name (lines 280 to 289).\<close>

function key_end :: "string \<Rightarrow> nat \<Rightarrow> nat exit" where
  "key_end buf i =
     (if i < length buf then
        (if buf ! i = NUL then Return
         else if buf ! i = CHR ''='' \<or> buf ! i = CHR '' '' \<or> buf ! i = HT then Goes i
         else key_end buf (i + 1))
      else Goes i)"
  by pat_completeness auto
termination
  by (relation "measure (\<lambda>(buf, i). length buf - i)") auto

declare key_end.simps [simp del]

text \<open>\<^verbatim>\<open>for(; i<fileBufSize; i++) if(buf[i] != '=' && buf[i] != ' ' && buf[i] != 0x09) break;\<close>\<close>

function skip_sep :: "string \<Rightarrow> nat \<Rightarrow> nat" where
  "skip_sep buf i =
     (if i < length buf then
        (if buf ! i \<noteq> CHR ''='' \<and> buf ! i \<noteq> CHR '' '' \<and> buf ! i \<noteq> HT then i
         else skip_sep buf (i + 1))
      else i)"
  by pat_completeness auto
termination
  by (relation "measure (\<lambda>(buf, i). length buf - i)") auto

declare skip_sep.simps [simp del]

text \<open>
  The scan for the end of the value (lines 306 to 319). At a comment marker the byte
  before it is read; at offset 0 that byte is outside the buffer.
\<close>

function value_end :: "string \<Rightarrow> nat \<Rightarrow> nat exit option" where
  "value_end buf i =
     (if i < length buf then
        (if buf ! i = NUL then Some (Goes i)
         else if buf ! i = CHR ''#'' \<or> buf ! i = CHR '';'' then
           (if i = 0 then None
            else if buf ! (i - 1) \<noteq> CHR '' '' \<and> buf ! (i - 1) \<noteq> HT then Some Return
            else Some (Goes i))
         else value_end buf (i + 1))
      else Some (Goes i))"
  by pat_completeness auto
termination
  by (relation "measure (\<lambda>(buf, i). length buf - i)") auto

declare value_end.simps [simp del]

text \<open>
  \<^verbatim>\<open>for(--i; i>=0; i--) if(buf[i] != ' ' && buf[i] != 0x09) break;\<close> followed by the \<^verbatim>\<open>++i\<close>
  of line 326. The C index runs down to \<open>-1\<close>; the argument \<open>j\<close> here is the C index plus
  one, so the function takes the C index before \<^verbatim>\<open>--i\<close> and gives the one after \<^verbatim>\<open>++i\<close>.
\<close>

fun trim_back :: "string \<Rightarrow> nat \<Rightarrow> nat" where
  "trim_back buf 0 = 0"
| "trim_back buf (Suc j) =
     (if buf ! j \<noteq> CHR '' '' \<and> buf ! j \<noteq> HT then Suc j else trim_back buf j)"

section \<open>confreaderParseFile: one line of pass 2\<close>

text \<open>
  A section header (lines 238 to 268). The next slot of the section table is written
  with the name pointer \<^verbatim>\<open>&buf[++i]\<close>, size 0 and no parameters; then the bracket is
  sought, blanks are skipped and the rest of the line must be empty or a comment.
\<close>

definition link_section ::
  "string \<Rightarrow> ConfreaderSection option list \<Rightarrow> nat \<Rightarrow> nat \<Rightarrow>
   (string \<times> ConfreaderSection option list \<times> nat) exit option" where
  "link_section buf sects sectIdx i =
     (if sectIdx + 1 < length sects then
        (let sects' =
               sects[sectIdx + 1 := Some \<lparr>s_size = 0, s_name = Some (i + 1), s_params = None\<rparr>]
         in case find_close buf (i + 1) of
           Return \<Rightarrow> Some Return
         | Goes (buf', i') \<Rightarrow>
             (case rd buf' (skip_blank buf' i') of
                None \<Rightarrow> None
              | Some c \<Rightarrow>
                  if c \<noteq> NUL \<and> c \<noteq> CHR ''#'' \<and> c \<noteq> CHR '';'' then Some Return
                  else Some (Goes (buf', sects', sectIdx + 1))))
      else None)"

text \<open>
  A parameter line (lines 271 to 330). The key pointer is stored in the slot \<open>paramIdx\<close>
  first and the value pointer later; no read of the slot and only returns that free the
  table lie between the two, so the slot is written once, with both. Likewise the slot of
  the current section is read once and written once, with the pointer to its first
  parameter (line 276) and the incremented size (line 328).
\<close>

definition link_param ::
  "string \<Rightarrow> ConfreaderSection option list \<Rightarrow> ConfreaderParam option list \<Rightarrow> nat \<Rightarrow> nat \<Rightarrow> nat \<Rightarrow>
   (string \<times> ConfreaderSection option list \<times> ConfreaderParam option list \<times> nat) exit option" where
  "link_param buf sects params sectIdx paramIdx i =
     (if paramIdx < length params then
        (case slot sects sectIdx of
           None \<Rightarrow> None
         | Some s \<Rightarrow>
             (let s1 = (if s_params s = None then s\<lparr>s_params := Some paramIdx\<rparr> else s) in
              case key_end buf i of
                Return \<Rightarrow> Some Return
              | Goes k \<Rightarrow>
                  if k < length buf then
                    (let buf1 = buf[k := NUL]; v = skip_sep buf1 (k + 1) in
                     case rd buf1 v of
                       None \<Rightarrow> None
                     | Some c \<Rightarrow>
                         if c = NUL \<or> c = CHR ''#'' \<or> c = CHR '';'' then Some Return
                         else
                           (case value_end buf1 v of
                              None \<Rightarrow> None
                            | Some Return \<Rightarrow> Some Return
                            | Some (Goes e) \<Rightarrow>
                                (let t = trim_back buf1 e in
                                 if t < length buf1 then
                                   Some (Goes (buf1[t := NUL],
                                     sects[sectIdx := Some (s1\<lparr>s_size := s_size s1 + 1\<rparr>)],
                                     params[paramIdx := Some \<lparr>p_key = i, p_value = v\<rparr>],
                                     paramIdx + 1))
                                 else None)))
                  else None))
      else None)"

text \<open>The body of the loop of pass 2: the line is classified by its first byte.\<close>

definition link_line ::
  "string \<Rightarrow> ConfreaderSection option list \<Rightarrow> ConfreaderParam option list \<Rightarrow> nat \<Rightarrow> nat \<Rightarrow> nat \<Rightarrow>
   (string \<times> ConfreaderSection option list \<times> ConfreaderParam option list \<times> nat \<times> nat) exit option"
  where
  "link_line buf sects params sectIdx paramIdx i =
     (case rd buf i of
        None \<Rightarrow> None
      | Some c \<Rightarrow>
          if c = CHR ''['' then
            (case link_section buf sects sectIdx i of
               None \<Rightarrow> None
             | Some Return \<Rightarrow> Some Return
             | Some (Goes (buf', sects', sectIdx')) \<Rightarrow>
                 Some (Goes (buf', sects', params, sectIdx', paramIdx)))
          else if c \<noteq> CHR ''#'' \<and> c \<noteq> CHR '';'' \<and> c \<noteq> NUL then
            (case link_param buf sects params sectIdx paramIdx i of
               None \<Rightarrow> None
             | Some Return \<Rightarrow> Some Return
             | Some (Goes (buf', sects', params', paramIdx')) \<Rightarrow>
                 Some (Goes (buf', sects', params', sectIdx, paramIdx')))
          else Some (Goes (buf, sects, params, sectIdx, paramIdx)))"

text \<open>
  Pass 2 (line 235): the loop runs while lines are left and the parameter table is not
  full. A failure reports \<^verbatim>\<open>lineIdx + 1\<close>.
\<close>

function linker ::
  "nat option list \<Rightarrow> nat \<Rightarrow> nat \<Rightarrow> string \<Rightarrow> ConfreaderSection option list \<Rightarrow>
   ConfreaderParam option list \<Rightarrow> nat \<Rightarrow> nat \<Rightarrow> nat \<Rightarrow>
   (string \<times> ConfreaderSection option list \<times> ConfreaderParam option list, nat) outcome option"
  where
  "linker lines lineCount paramCount buf sects params sectIdx paramIdx lineIdx =
     (if lineIdx < lineCount \<and> paramIdx < paramCount then
        (case slot lines lineIdx of
           None \<Rightarrow> None
         | Some i \<Rightarrow>
             (case link_line buf sects params sectIdx paramIdx i of
                None \<Rightarrow> None
              | Some Return \<Rightarrow> Some (ParseFail (lineIdx + 1))
              | Some (Goes (buf', sects', params', sectIdx', paramIdx')) \<Rightarrow>
                  linker lines lineCount paramCount buf' sects' params' sectIdx' paramIdx'
                    (lineIdx + 1)))
      else Some (Ok (buf, sects, params)))"
  by pat_completeness auto
termination
  by (relation "measure (\<lambda>(lines, lineCount, paramCount, buf, sects, params, sectIdx, paramIdx,
        lineIdx). lineCount - lineIdx)") auto

declare linker.simps [simp del]


section \<open>confreaderParseFile\<close>

text \<open>
  The block that ends every parse failure:
  \<^verbatim>\<open>confreaderClear(); confreaderErrorLineNum = n; confreaderErrorNum = CONFREADER_EPARSINGFILE;
  return CONFREADER_ERROR;\<close> (lines 196, 250, 264, 282, 298 and 312).
\<close>

definition parse_failure :: "nat \<Rightarrow> confreader \<Rightarrow> int \<times> confreader" where
  "parse_failure n d =
     (CONFREADER_ERROR,
      (confreaderClear d)\<lparr>confreaderErrorLineNum := n,
         confreaderErrorNum := CONFREADER_EPARSINGFILE\<rparr>)"

text \<open>The block after a failed \<^verbatim>\<open>malloc\<close> of a table (lines 165, 215 and 223).\<close>

definition no_memory :: "confreader \<Rightarrow> int \<times> confreader" where
  "no_memory d =
     (CONFREADER_ERROR, (confreaderClear d)\<lparr>confreaderErrorNum := CONFREADER_ENOMEM\<rparr>)"

text \<open>
  Lines 212 to 336: the two tables are allocated with the sizes pass 1 counted, slot 0 of
  the section table is written, pass 2 runs, and the line offsets are freed.
\<close>

definition link_all :: "sys \<Rightarrow> confreader \<Rightarrow> (int \<times> confreader) option" where
  "link_all e d =
     (case (confreader_fileBuf d, confreader_lines d) of
        (Some buf, Some lines) \<Rightarrow>
          if \<not> malloc_ok e ParamsBlock then Some (no_memory d)
          else
            (let d1 = d\<lparr>heap_blocks := heap_blocks d + 1,
                        confreader_params := Some (replicate (confreader_paramCount d) None)\<rparr>
             in if \<not> malloc_ok e SectsBlock then Some (no_memory d1)
             else
               (let d2 = d1\<lparr>heap_blocks := heap_blocks d1 + 1,
                           confreaderSects := Some (replicate (confreaderSectCount d) None)\<rparr>
                in if 0 < confreaderSectCount d then
                  (case linker lines (confreader_lineCount d) (confreader_paramCount d) buf
                          ((replicate (confreaderSectCount d) None)
                             [0 := Some \<lparr>s_size = 0, s_name = None, s_params = None\<rparr>])
                          (replicate (confreader_paramCount d) None) 0 0 0 of
                     None \<Rightarrow> None
                   | Some (ParseFail n) \<Rightarrow> Some (parse_failure n d2)
                   | Some (Ok (buf', sects', params')) \<Rightarrow>
                       Some (CONFREADER_OK,
                         (free_lines (d2\<lparr>confreader_fileBuf := Some buf',
                            confreaderSects := Some sects', confreader_params := Some params'\<rparr>))
                         \<lparr>confreaderErrorNum := CONFREADER_OK\<rparr>))
                else None))
      | _ \<Rightarrow> None)"

text \<open>
  Lines 156 to 210: the lines are counted, the array of line offsets is allocated, and pass
  1 runs from \<^verbatim>\<open>paramCount = 0\<close>, \<^verbatim>\<open>sectCount = 1\<close>, \<^verbatim>\<open>lineIdx = 0\<close>. The index \<^verbatim>\<open>i\<close> is an
  \<^verbatim>\<open>int\<close>: a buffer of more than \<^const>\<open>INT_MAX\<close> bytes makes \<^verbatim>\<open>i++\<close> overflow.
\<close>

definition split_lines :: "sys \<Rightarrow> confreader \<Rightarrow> (int \<times> confreader) option" where
  "split_lines e d =
     (case confreader_fileBuf d of
        None \<Rightarrow> None
      | Some buf \<Rightarrow>
          if INT_MAX < length buf then None
          else
            (let d1 = d\<lparr>confreader_lineCount := count_lines buf 0 0\<rparr> in
             if \<not> malloc_ok e LinesBlock then Some (no_memory d1)
             else
               (let d2 = d1\<lparr>heap_blocks := heap_blocks d1 + 1,
                           confreader_lines := Some (replicate (confreader_lineCount d1) None),
                           confreader_paramCount := 0, confreaderSectCount := 1\<rparr>
                in case line_splitter buf (replicate (confreader_lineCount d1) None) 0 1 0 0 of
                     None \<Rightarrow> None
                   | Some (ParseFail (n, paramCount)) \<Rightarrow>
                       Some (parse_failure n (d2\<lparr>confreader_paramCount := paramCount\<rparr>))
                   | Some (Ok (buf', lines', sectCount, paramCount)) \<Rightarrow>
                       link_all e (d2\<lparr>confreader_fileBuf := Some buf',
                          confreader_lines := Some lines', confreader_paramCount := paramCount,
                          confreaderSectCount := sectCount\<rparr>))))"

text \<open>
  Lines 119 to 154: the file is opened and read whole into a block of one byte more than
  its size, and a line feed is put in the last byte. The block holds nothing that is read
  before \<^verbatim>\<open>read\<close> has filled it, so the buffer appears with its content; a short \<^verbatim>\<open>read\<close>
  frees it. The descriptor is closed on the two paths that call \<^verbatim>\<open>close\<close>.
\<close>

definition load_file :: "sys \<Rightarrow> confreader \<Rightarrow> (int \<times> confreader) option" where
  "load_file e d =
     (if \<not> open_ok e then
        Some (CONFREADER_ERROR, d\<lparr>confreaderErrorNum := CONFREADER_EREADFILE\<rparr>)
      else
        (let d1 = d\<lparr>open_fds := open_fds d + 1\<rparr> in
         if \<not> fstat_ok e then
           Some (CONFREADER_ERROR, d1\<lparr>confreaderErrorNum := CONFREADER_EREADFILE\<rparr>)
         else if st_size e = 0 then
           Some (CONFREADER_OK,
             d1\<lparr>open_fds := open_fds d1 - 1, confreaderErrorNum := CONFREADER_OK\<rparr>)
         else if \<not> malloc_ok e BufBlock then
           Some (CONFREADER_ERROR, d1\<lparr>confreaderErrorNum := CONFREADER_ENOMEM\<rparr>)
         else
           (let d2 = d1\<lparr>heap_blocks := heap_blocks d1 + 1\<rparr>;
                got = take (st_size e) (read_delivers e)
            in if length got \<noteq> st_size e then
                 Some (CONFREADER_ERROR,
                   d2\<lparr>heap_blocks := heap_blocks d2 - 1, confreader_fileBuf := None,
                      confreaderErrorNum := CONFREADER_EREADFILE\<rparr>)
               else
                 split_lines e
                   (d2\<lparr>open_fds := open_fds d2 - 1,
                       confreader_fileBuf := Some (got @ [LF])\<rparr>))))"

definition confreaderParseFile :: "sys \<Rightarrow> confreader \<Rightarrow> (int \<times> confreader) option" where
  "confreaderParseFile e d =
     (let d0 = d\<lparr>confreaderErrorLineNum := 0\<rparr> in
      if confreader_fileBuf d0 \<noteq> None then
        Some (CONFREADER_ERROR, d0\<lparr>confreaderErrorNum := CONFREADER_EBUSY\<rparr>)
      else load_file e (confreaderInit d0))"


section \<open>Lookup\<close>

text \<open>
  Modelled from the spec: \<^verbatim>\<open>strcasecmp\<close> is the collaborator "ASCII case-insensitive string
  compare" of section 6, not code of the repository. \<open>strcasecmp a b\<close> stands for the C
  test \<^verbatim>\<open>strcasecmp(a, b) == 0\<close>; both arguments are compared up to their terminator.
\<close>

definition tolower :: "char \<Rightarrow> char" where
  "tolower c =
     (if (65::nat) \<le> of_char c \<and> of_char c \<le> (90::nat) then char_of (of_char c + (32::nat))
      else c)"

definition c_string :: "string \<Rightarrow> string" where
  "c_string s = takeWhile (\<lambda>c. c \<noteq> NUL) s"

definition strcasecmp :: "string \<Rightarrow> string \<Rightarrow> bool" where
  "strcasecmp a b \<longleftrightarrow> map tolower (c_string a) = map tolower (c_string b)"

text \<open>
  \<^verbatim>\<open>for(j=0; j<size; j++) if(strcasecmp(key, params[j].key) == 0) return params[j].value;\<close>
  where \<^verbatim>\<open>params\<close> is the pointer \<open>base\<close> stored in the section (slot \<open>base + j\<close> of the table)
  and \<open>n\<close> the section's \<^verbatim>\<open>size\<close>.
  The result is \<open>Some (Some v)\<close> for the \<^verbatim>\<open>return\<close> of a value pointer and \<open>Some None\<close> when
  the loop ends without a match.
\<close>

function find_param ::
  "string \<Rightarrow> confreader \<Rightarrow> nat option \<Rightarrow> nat \<Rightarrow> nat \<Rightarrow> nat option option" where
  "find_param key d base n j =
     (if j < n then
        (case (confreader_fileBuf d, confreader_params d, base) of
           (Some buf, Some params, Some b) \<Rightarrow>
             (case slot params (b + j) of
                None \<Rightarrow> None
              | Some p \<Rightarrow>
                  (case cstr buf (p_key p) of
                     None \<Rightarrow> None
                   | Some k \<Rightarrow>
                       if strcasecmp key k then Some (Some (p_value p))
                       else find_param key d base n (j + 1)))
         | _ \<Rightarrow> None)
      else Some None)"
  by pat_completeness auto
termination
  by (relation "measure (\<lambda>(key, d, base, n, j). n - j)") auto

declare find_param.simps [simp del]

text \<open>
  \<^verbatim>\<open>for(i=1; i<confreaderSectCount; i++) if(strcasecmp(section, confreaderSects[i].name) == 0)\<close>
  with the search of that section's parameters and the \<^verbatim>\<open>break\<close> (lines 351 to 361).
\<close>

function find_section ::
  "string \<Rightarrow> string \<Rightarrow> confreader \<Rightarrow> nat \<Rightarrow> nat option option" where
  "find_section key section d i =
     (if i < confreaderSectCount d then
        (case (confreader_fileBuf d, confreaderSects d) of
           (Some buf, Some sects) \<Rightarrow>
             (case slot sects i of
                None \<Rightarrow> None
              | Some s \<Rightarrow>
                  (case s_name s of
                     None \<Rightarrow> None
                   | Some n \<Rightarrow>
                       (case cstr buf n of
                          None \<Rightarrow> None
                        | Some nm \<Rightarrow>
                            if strcasecmp section nm
                            then find_param key d (s_params s) (s_size s) 0
                            else find_section key section d (i + 1))))
         | _ \<Rightarrow> None)
      else Some None)"
  by pat_completeness auto
termination
  by (relation "measure (\<lambda>(key, section, d, i). confreaderSectCount d - i)") auto

declare find_section.simps [simp del]

text \<open>
  \<^verbatim>\<open>confreaderFind\<close>: the pointer to the value or \<^verbatim>\<open>NULL\<close>, and the globals with
  \<^verbatim>\<open>confreaderErrorNum\<close> set.
\<close>

definition confreaderFind ::
  "string \<Rightarrow> string option \<Rightarrow> confreader \<Rightarrow> (nat option \<times> confreader) option" where
  "confreaderFind key section d =
     (case (if confreader_fileBuf d \<noteq> None then
              (case section of
                 None \<Rightarrow>
                   (case confreaderSects d of
                      None \<Rightarrow> None
                    | Some sects \<Rightarrow>
                        (case slot sects 0 of
                           None \<Rightarrow> None
                         | Some s \<Rightarrow> find_param key d (s_params s) (s_size s) 0))
               | Some sec \<Rightarrow> find_section key sec d 1)
            else Some None) of
        None \<Rightarrow> None
      | Some (Some v) \<Rightarrow> Some (Some v, d\<lparr>confreaderErrorNum := CONFREADER_OK\<rparr>)
      | Some None \<Rightarrow> Some (None, d\<lparr>confreaderErrorNum := CONFREADER_ENOPARAM\<rparr>))"

text \<open>\<^verbatim>\<open>confreaderHasSection\<close>: its loop (lines 371 to 375), then the function.\<close>

function section_named :: "string \<Rightarrow> confreader \<Rightarrow> nat \<Rightarrow> bool option" where
  "section_named section d i =
     (if i < confreaderSectCount d then
        (case (confreader_fileBuf d, confreaderSects d) of
           (Some buf, Some sects) \<Rightarrow>
             (case slot sects i of
                None \<Rightarrow> None
              | Some s \<Rightarrow>
                  (case s_name s of
                     None \<Rightarrow> None
                   | Some n \<Rightarrow>
                       (case cstr buf n of
                          None \<Rightarrow> None
                        | Some nm \<Rightarrow>
                            if strcasecmp section nm then Some True
                            else section_named section d (i + 1))))
         | _ \<Rightarrow> None)
      else Some False)"
  by pat_completeness auto
termination
  by (relation "measure (\<lambda>(section, d, i). confreaderSectCount d - i)") auto

declare section_named.simps [simp del]

definition confreaderHasSection :: "string \<Rightarrow> confreader \<Rightarrow> (int \<times> confreader) option" where
  "confreaderHasSection section d =
     (case section_named section d 1 of
        None \<Rightarrow> None
      | Some True \<Rightarrow> Some (1, d)
      | Some False \<Rightarrow> Some (0, d\<lparr>confreaderErrorNum := CONFREADER_ENOSECT\<rparr>))"

section \<open>Typed accessors\<close>


text \<open>\<^verbatim>\<open>c < '0' || c > '9'\<close>; a byte above 127 fails the test as a \<^verbatim>\<open>signed char\<close> too.\<close>

definition non_digit :: "char \<Rightarrow> bool" where
  "non_digit c \<longleftrightarrow> (of_char c :: nat) < 48 \<or> (57::nat) < of_char c"

text \<open>
  \<^verbatim>\<open>for(k=1; val[k]!=0; k++) if(val[k] < '0' || val[k] > '9') return defaultValue;\<close> with the
  index into the buffer: \<open>Some True\<close> when the terminator is reached.
\<close>

function int_tail :: "string \<Rightarrow> nat \<Rightarrow> bool option" where
  "int_tail buf i =
     (if i < length buf then
        (if buf ! i = NUL then Some True
         else if non_digit (buf ! i) then Some False
         else int_tail buf (i + 1))
      else None)"
  by pat_completeness auto
termination
  by (relation "measure (\<lambda>(buf, i). length buf - i)") auto

declare int_tail.simps [simp del]

function double_tail :: "string \<Rightarrow> nat \<Rightarrow> bool option" where
  "double_tail buf i =
     (if i < length buf then
        (if buf ! i = NUL then Some True
         else if non_digit (buf ! i) \<and> buf ! i \<noteq> CHR ''.'' then Some False
         else double_tail buf (i + 1))
      else None)"
  by pat_completeness auto
termination
  by (relation "measure (\<lambda>(buf, i). length buf - i)") auto

declare double_tail.simps [simp del]

text \<open>
  \<^verbatim>\<open>strtol(val, NULL, 10)\<close> of the C library: white space is skipped, a sign is read, then the
  longest run of decimal digits; without a digit the result is 0; the result is kept within
  the range of \<^verbatim>\<open>long\<close> (64 bits). The \<^verbatim>\<open>return\<close> converts it to \<^verbatim>\<open>int\<close> (32 bits).
\<close>

definition isspace :: "char \<Rightarrow> bool" where
  "isspace c \<longleftrightarrow> c = CHR '' '' \<or> ((9::nat) \<le> of_char c \<and> of_char c \<le> (13::nat))"

definition digits_value :: "string \<Rightarrow> int" where
  "digits_value ds = foldl (\<lambda>a c. 10 * a + (of_char c - 48)) 0 ds"

definition strtol10 :: "string \<Rightarrow> int" where
  "strtol10 s =
     (let t = dropWhile isspace s;
          neg = (t \<noteq> [] \<and> hd t = CHR ''-'');
          u = (if t \<noteq> [] \<and> (hd t = CHR ''-'' \<or> hd t = CHR ''+'') then tl t else t);
          n = digits_value (takeWhile (\<lambda>c. \<not> non_digit c) u);
          v = (if neg then - n else n)
      in max (- 9223372036854775808) (min 9223372036854775807 v))"

definition long_to_int :: "int \<Rightarrow> int" where
  "long_to_int v = sint (word_of_int v :: 32 word)"

definition confreaderGetInt ::
  "string \<Rightarrow> string option \<Rightarrow> int \<Rightarrow> confreader \<Rightarrow> (int \<times> confreader) option" where
  "confreaderGetInt key section defaultValue d =
     (case confreaderFind key section d of
        None \<Rightarrow> None
      | Some (None, d') \<Rightarrow> Some (defaultValue, d')
      | Some (Some v, d') \<Rightarrow>
          (case confreader_fileBuf d' of
             None \<Rightarrow> None
           | Some buf \<Rightarrow>
               (case rd buf v of
                  None \<Rightarrow> None
                | Some c \<Rightarrow>
                    if non_digit c \<and> c \<noteq> CHR ''-'' then
                      Some (defaultValue, d'\<lparr>confreaderErrorNum := CONFREADER_EINVVAL\<rparr>)
                    else
                      (case int_tail buf (v + 1) of
                         None \<Rightarrow> None
                       | Some False \<Rightarrow>
                           Some (defaultValue, d'\<lparr>confreaderErrorNum := CONFREADER_EINVVAL\<rparr>)
                       | Some True \<Rightarrow>
                           (case cstr buf v of
                              None \<Rightarrow> None
                            | Some val \<Rightarrow> Some (long_to_int (strtol10 val), d'))))))"

text \<open>
  \<^verbatim>\<open>confreaderGetDouble\<close>. The conversion \<^verbatim>\<open>strtod\<close> of the C library and the type of its
  results are parameters: the function decides only whether the value is converted.
\<close>

definition confreaderGetDouble ::
  "(string \<Rightarrow> 'r) \<Rightarrow> string \<Rightarrow> string option \<Rightarrow> 'r \<Rightarrow> confreader \<Rightarrow> ('r \<times> confreader) option"
  where
  "confreaderGetDouble strtod key section defaultValue d =
     (case confreaderFind key section d of
        None \<Rightarrow> None
      | Some (None, d') \<Rightarrow> Some (defaultValue, d')
      | Some (Some v, d') \<Rightarrow>
          (case confreader_fileBuf d' of
             None \<Rightarrow> None
           | Some buf \<Rightarrow>
               (case rd buf v of
                  None \<Rightarrow> None
                | Some c \<Rightarrow>
                    if non_digit c \<and> c \<noteq> CHR ''-'' then
                      Some (defaultValue, d'\<lparr>confreaderErrorNum := CONFREADER_EINVVAL\<rparr>)
                    else
                      (case double_tail buf (v + 1) of
                         None \<Rightarrow> None
                       | Some False \<Rightarrow>
                           Some (defaultValue, d'\<lparr>confreaderErrorNum := CONFREADER_EINVVAL\<rparr>)
                       | Some True \<Rightarrow>
                           (case cstr buf v of
                              None \<Rightarrow> None
                            | Some val \<Rightarrow> Some (strtod val, d'))))))"

section \<open>Concrete documents and files\<close>

text \<open>
  The globals as the C program starts with them, and the answers of a system on which a
  file with the bytes \<open>s\<close> opens, reads whole, and every allocation succeeds.
\<close>

definition unloaded :: confreader where
  "unloaded =
     \<lparr>confreader_fileBuf = None, confreader_lines = None, confreader_lineCount = 0,
      confreader_params = None, confreader_paramCount = 0, confreaderErrorNum = 0,
      confreaderErrorLineNum = 0, confreaderSects = None, confreaderSectCount = 0,
      heap_blocks = 0, open_fds = 0\<rparr>"

definition regular_file :: "string \<Rightarrow> sys" where
  "regular_file s =
     \<lparr>open_ok = True, fstat_ok = True, st_size = length s, read_delivers = s,
      malloc_ok = (\<lambda>_. True)\<rparr>"

lemma small_buffer: "n \<le> 100 \<Longrightarrow> \<not> INT_MAX < n"
  by (simp add: INT_MAX_def)

lemmas parse_eval = confreaderParseFile_def load_file_def split_lines_def link_all_def
  confreaderInit_def confreaderClear_def free_sects_def free_params_def free_lines_def
  free_fileBuf_def parse_failure_def no_memory_def regular_file_def unloaded_def
  count_lines.simps small_buffer eval_nat_numeral Let_def

lemmas split_eval = line_splitter.simps scan_eol.simps skip_blank.simps rd_def blank_def
  tally_section_def tally_param_def Let_def

lemmas link_eval = linker.simps link_line_def link_section_def link_param_def find_close.simps
  skip_blank.simps key_end.simps skip_sep.simps value_end.simps slot_def rd_def blank_def Let_def

section \<open>What each stage of a parse leaves behind\<close>

lemma link_all_OK:
  "link_all e d = Some (CONFREADER_OK, d') \<Longrightarrow>
   confreader_fileBuf d' \<noteq> None \<and> confreaderErrorLineNum d' = confreaderErrorLineNum d"
  by (auto simp: link_all_def no_memory_def parse_failure_def free_lines_def Let_def
      split: option.splits if_splits outcome.splits prod.splits)

lemma split_lines_OK:
  "split_lines e d = Some (CONFREADER_OK, d') \<Longrightarrow>
   confreader_fileBuf d' \<noteq> None \<and> confreaderErrorLineNum d' = confreaderErrorLineNum d"
  by (auto simp: split_lines_def no_memory_def parse_failure_def Let_def
      dest!: link_all_OK split: option.splits if_splits outcome.splits prod.splits)

lemma load_file_OK:
  "load_file e d = Some (CONFREADER_OK, d') \<Longrightarrow> 0 < st_size e \<Longrightarrow>
   confreader_fileBuf d' \<noteq> None \<and> confreaderErrorLineNum d' = confreaderErrorLineNum d"
  by (auto simp: load_file_def Let_def dest!: split_lines_OK split: if_splits)

section \<open>Failure of a parse\<close>

definition released :: "confreader \<Rightarrow> bool" where
  "released d \<longleftrightarrow>
     confreader_fileBuf d = None \<and> confreader_lines d = None \<and>
     confreader_params d = None \<and> confreaderSects d = None \<and> confreaderSectCount d = 0"

lemma released_init: "released (confreaderInit d)"
  by (simp add: released_def confreaderInit_def)

lemma link_all_ERROR:
  assumes "link_all e d = Some (CONFREADER_ERROR, d')"
    and "confreader_params d = None" and "confreaderSects d = None"
  shows "released d' \<and> heap_blocks d' = heap_blocks d - 2 \<and>
         (confreaderErrorNum d' = CONFREADER_EPARSINGFILE \<or>
          confreaderErrorNum d' = CONFREADER_ENOMEM)"
  using assms
  by (auto simp: link_all_def no_memory_def parse_failure_def confreaderClear_def released_def
      free_lines_def free_params_def free_sects_def free_fileBuf_def Let_def
      split: option.splits if_splits outcome.splits prod.splits)

lemma split_lines_ERROR:
  assumes "split_lines e d = Some (CONFREADER_ERROR, d')"
    and "confreader_lines d = None" and "confreader_params d = None"
    and "confreaderSects d = None"
  shows "released d' \<and> heap_blocks d' = heap_blocks d - 1 \<and>
         (confreaderErrorNum d' = CONFREADER_EPARSINGFILE \<or>
          confreaderErrorNum d' = CONFREADER_ENOMEM)"
proof (cases "confreader_fileBuf d")
  case None
  with assms(1) show ?thesis by (simp add: split_lines_def)
next
  case (Some buf)
  note buf = this
  show ?thesis
  proof (cases "malloc_ok e LinesBlock")
    case False
    with assms buf show ?thesis
      by (auto simp: split_lines_def no_memory_def confreaderClear_def released_def
          free_lines_def free_params_def free_sects_def free_fileBuf_def Let_def
          split: if_splits)
  next
    case True
    show ?thesis
    proof (cases "line_splitter buf (replicate (count_lines buf 0 0) None) 0 1 0 0")
      case None
      with assms buf True show ?thesis
        by (simp add: split_lines_def Let_def split: if_splits)
    next
      case (Some r)
      show ?thesis
      proof (cases r)
        case (ParseFail x)
        with assms buf True Some show ?thesis
          by (auto simp: split_lines_def parse_failure_def confreaderClear_def released_def
              free_lines_def free_params_def free_sects_def free_fileBuf_def Let_def
              split: if_splits prod.splits)
      next
        case (Ok x)
        obtain buf' lines' sc pc where x: "x = (buf', lines', sc, pc)" by (cases x)
        from assms buf True Some Ok x
        have "link_all e
               (d\<lparr>confreader_lineCount := count_lines buf 0 0, heap_blocks := heap_blocks d + 1,
                   confreader_lines := Some (replicate (count_lines buf 0 0) None),
                   confreader_paramCount := 0, confreaderSectCount := 1,
                   confreader_fileBuf := Some buf', confreader_lines := Some lines',
                   confreader_paramCount := pc, confreaderSectCount := sc\<rparr>) =
              Some (CONFREADER_ERROR, d')"
          by (simp add: split_lines_def Let_def split: if_splits)
        from link_all_ERROR [OF this] assms show ?thesis by simp
      qed
    qed
  qed
qed

lemma load_file_ERROR:
  assumes "load_file e d = Some (CONFREADER_ERROR, d')" and "released d"
  shows "released d' \<and> heap_blocks d' = heap_blocks d \<and>
         (confreaderErrorNum d' = CONFREADER_EREADFILE \<or>
          confreaderErrorNum d' = CONFREADER_EPARSINGFILE \<or>
          confreaderErrorNum d' = CONFREADER_ENOMEM)"
proof (cases "open_ok e \<and> fstat_ok e \<and> st_size e \<noteq> 0 \<and> malloc_ok e BufBlock \<and>
    length (take (st_size e) (read_delivers e)) = st_size e")
  case False
  with assms show ?thesis
    by (auto simp: load_file_def released_def Let_def split: if_splits)
next
  case True
  with assms(1)
  have "split_lines e
          (d\<lparr>open_fds := open_fds d + 1, heap_blocks := heap_blocks d + 1,
              open_fds := open_fds d + 1 - 1,
              confreader_fileBuf := Some (take (st_size e) (read_delivers e) @ [LF])\<rparr>) =
        Some (CONFREADER_ERROR, d')"
    by (simp add: load_file_def Let_def)
  from split_lines_ERROR [OF this] assms(2) show ?thesis
    by (auto simp: released_def)
qed

text \<open>The value returned is one of the two codes, and a success leaves \<^verbatim>\<open>CONFREADER_OK\<close>.\<close>

lemma link_all_codes:
  "link_all e d = Some (r, d') \<Longrightarrow>
   r = CONFREADER_ERROR \<or> r = CONFREADER_OK \<and> confreaderErrorNum d' = CONFREADER_OK"
  by (auto simp: link_all_def no_memory_def parse_failure_def free_lines_def Let_def
      split: option.splits if_splits outcome.splits prod.splits)

lemma split_lines_codes:
  "split_lines e d = Some (r, d') \<Longrightarrow>
   r = CONFREADER_ERROR \<or> r = CONFREADER_OK \<and> confreaderErrorNum d' = CONFREADER_OK"
  by (auto simp: split_lines_def no_memory_def parse_failure_def Let_def
      dest!: link_all_codes split: option.splits if_splits outcome.splits prod.splits)

lemma load_file_codes:
  "load_file e d = Some (r, d') \<Longrightarrow>
   r = CONFREADER_ERROR \<or> r = CONFREADER_OK \<and> confreaderErrorNum d' = CONFREADER_OK"
  by (auto simp: load_file_def Let_def dest!: split_lines_codes split: if_splits)

lemma load_file_not_busy:
  assumes "released d"
  shows "map_option (\<lambda>r. confreaderErrorNum (snd r)) (load_file e d) \<noteq> Some CONFREADER_EBUSY"
proof (cases "load_file e d")
  case None
  then show ?thesis by simp
next
  case (Some x)
  obtain r d' where x: "x = (r, d')" by (cases x)
  from load_file_codes [of e d r d'] load_file_ERROR [of e d d'] Some x assms
  show ?thesis by auto
qed

section \<open>Evaluated parses\<close>

text \<open>The file \<^verbatim>\<open>[Sect]\nA=1# note\<close>: the comment is not separated from the value.\<close>

lemma sect_note_split:
  "line_splitter (''[Sect]'' @ [LF] @ ''A=1# note'' @ [LF]) [None, None] 0 1 0 0 =
     Some (Ok (''[Sect]'' @ [NUL] @ ''A=1# note'' @ [NUL], [Some 0, Some 7], 2, 1))"
  by (simp add: split_eval)

lemma sect_note_link:
  "linker [Some 0, Some 7] 2 1 (''[Sect]'' @ [NUL] @ ''A=1# note'' @ [NUL])
     [Some \<lparr>s_size = 0, s_name = None, s_params = None\<rparr>, None] [None] 0 0 0 =
     Some (ParseFail 2)"
  by (simp add: link_eval)

lemma sect_note_parse:
  "confreaderParseFile (regular_file (''[Sect]'' @ [LF] @ ''A=1# note'')) unloaded =
     Some (CONFREADER_ERROR,
       unloaded\<lparr>confreader_lineCount := 2, confreader_paramCount := 1,
         confreaderErrorNum := CONFREADER_EPARSINGFILE, confreaderErrorLineNum := 2\<rparr>)"
  using sect_note_split sect_note_link by (simp add: parse_eval)

text \<open>The file \<^verbatim>\<open>a=1\<close>, and the empty file.\<close>

definition doc_a1 :: confreader where
  "doc_a1 =
     \<lparr>confreader_fileBuf = Some (''a'' @ [NUL] @ ''1'' @ [NUL]), confreader_lines = None,
      confreader_lineCount = 1, confreader_params = Some [Some \<lparr>p_key = 0, p_value = 2\<rparr>],
      confreader_paramCount = 1, confreaderErrorNum = CONFREADER_OK,
      confreaderErrorLineNum = 0,
      confreaderSects = Some [Some \<lparr>s_size = 1, s_name = None, s_params = Some 0\<rparr>],
      confreaderSectCount = 1, heap_blocks = 3, open_fds = 0\<rparr>"

lemma a1_split:
  "line_splitter (''a=1'' @ [LF]) [None] 0 1 0 0 = Some (Ok (''a=1'' @ [NUL], [Some 0], 1, 1))"
  by (simp add: split_eval)

lemma a1_link:
  "linker [Some 0] 1 1 (''a=1'' @ [NUL])
     [Some \<lparr>s_size = 0, s_name = None, s_params = None\<rparr>] [None] 0 0 0 =
     Some (Ok (''a'' @ [NUL] @ ''1'' @ [NUL],
       [Some \<lparr>s_size = 1, s_name = None, s_params = Some 0\<rparr>],
       [Some \<lparr>p_key = 0, p_value = 2\<rparr>]))"
  by (simp add: link_eval)

lemma a1_parse:
  "confreaderParseFile (regular_file ''a=1'') unloaded = Some (CONFREADER_OK, doc_a1)"
  using a1_split a1_link by (simp add: parse_eval doc_a1_def)

lemma empty_parse:
  "confreaderParseFile (regular_file []) unloaded = Some (CONFREADER_OK, unloaded)"
  by (simp add: parse_eval)

section \<open>The claims\<close>

text \<open>
  C3. Whenever \<^verbatim>\<open>confreaderParseFile\<close> returns an error other than Busy, the error is a read
  failure, a parse failure or an out-of-memory condition; the buffer, the line offsets,
  the section table and the parameter table are \<^verbatim>\<open>NULL\<close> again and the section count is 0,
  so that the globals equal what \<^verbatim>\<open>confreaderInit\<close> makes of them except for the two error
  indicators that carry the failure; every block the call obtained from \<^verbatim>\<open>malloc\<close> has
  been given to \<^verbatim>\<open>free\<close>; and a following call of \<^verbatim>\<open>confreaderParseFile\<close> does what it does
  on initialised globals and never answers Busy.
\<close>

theorem parse_error_releases:
  assumes "confreaderParseFile e d = Some (CONFREADER_ERROR, d')"
    and "confreaderErrorNum d' \<noteq> CONFREADER_EBUSY"
  shows "(confreaderErrorNum d' = CONFREADER_EREADFILE \<or>
          confreaderErrorNum d' = CONFREADER_EPARSINGFILE \<or>
          confreaderErrorNum d' = CONFREADER_ENOMEM) \<and>
         confreader_fileBuf d' = None \<and> confreader_lines d' = None \<and>
         confreader_params d' = None \<and> confreaderSects d' = None \<and>
         confreaderSectCount d' = 0 \<and>
         heap_blocks d' = heap_blocks d \<and>
         d'\<lparr>confreaderErrorNum := 0, confreaderErrorLineNum := 0\<rparr> = confreaderInit d' \<and>
         (\<forall>e2. confreaderParseFile e2 d' = confreaderParseFile e2 (confreaderInit d') \<and>
            map_option (\<lambda>r. confreaderErrorNum (snd r)) (confreaderParseFile e2 d') \<noteq>
              Some CONFREADER_EBUSY)"
proof -
  from assms have "confreader_fileBuf d = None"
    by (auto simp: confreaderParseFile_def Let_def split: if_splits)
  with assms(1)
  have "load_file e (confreaderInit (d\<lparr>confreaderErrorLineNum := 0\<rparr>)) =
          Some (CONFREADER_ERROR, d')"
    by (simp add: confreaderParseFile_def Let_def)
  from load_file_ERROR [OF this released_init]
  have r: "released d'" and h: "heap_blocks d' = heap_blocks d"
    and k: "confreaderErrorNum d' = CONFREADER_EREADFILE \<or>
          confreaderErrorNum d' = CONFREADER_EPARSINGFILE \<or>
          confreaderErrorNum d' = CONFREADER_ENOMEM"
    by (simp_all add: confreaderInit_def)
  from r have i: "d'\<lparr>confreaderErrorNum := 0, confreaderErrorLineNum := 0\<rparr> = confreaderInit d'"
    by (simp add: released_def confreaderInit_def)
  have "confreaderParseFile e2 d' = confreaderParseFile e2 (confreaderInit d') \<and>
        map_option (\<lambda>r. confreaderErrorNum (snd r)) (confreaderParseFile e2 d') \<noteq>
          Some CONFREADER_EBUSY" for e2
  proof -
    from r have p: "confreaderParseFile e2 d' = load_file e2 (confreaderInit d')"
      by (simp add: confreaderParseFile_def released_def confreaderInit_def Let_def)
    have "confreaderParseFile e2 (confreaderInit d') = load_file e2 (confreaderInit d')"
      by (simp add: confreaderParseFile_def confreaderInit_def Let_def)
    with p load_file_not_busy [OF released_init, of e2 d'] show ?thesis by simp
  qed
  with r h k i show ?thesis by (simp add: released_def)
qed

theorem parse_error_releases_witness:
  "confreaderParseFile (regular_file (''[Sect]'' @ [LF] @ ''A=1# note'')) unloaded =
     Some (CONFREADER_ERROR,
       unloaded\<lparr>confreader_lineCount := 2, confreader_paramCount := 1,
         confreaderErrorNum := CONFREADER_EPARSINGFILE, confreaderErrorLineNum := 2\<rparr>) \<and>
   heap_blocks (unloaded\<lparr>confreader_lineCount := 2, confreader_paramCount := 1,
         confreaderErrorNum := CONFREADER_EPARSINGFILE, confreaderErrorLineNum := 2\<rparr>) =
     heap_blocks unloaded \<and>
   confreaderParseFile (regular_file ''a=1'')
     (unloaded\<lparr>confreader_lineCount := 2, confreader_paramCount := 1,
         confreaderErrorNum := CONFREADER_EPARSINGFILE, confreaderErrorLineNum := 2\<rparr>) =
   confreaderParseFile (regular_file ''a=1'')
     (confreaderInit (unloaded\<lparr>confreader_lineCount := 2, confreader_paramCount := 1,
         confreaderErrorNum := CONFREADER_EPARSINGFILE, confreaderErrorLineNum := 2\<rparr>))"
proof -
  have "confreaderErrorNum (unloaded\<lparr>confreader_lineCount := 2, confreader_paramCount := 1,
         confreaderErrorNum := CONFREADER_EPARSINGFILE, confreaderErrorLineNum := 2\<rparr>) \<noteq>
        CONFREADER_EBUSY"
    by simp
  from parse_error_releases [OF sect_note_parse this] sect_note_parse
  show ?thesis by blast
qed

text \<open>
  C6, as amended. After a successful parse of a file that is not empty, every further call
  of \<^verbatim>\<open>confreaderParseFile\<close> returns the error Busy and changes nothing but the error
  number. After a successful parse of a file of size 0 no buffer is held, and every further
  call is accepted: it does what it does on initialised globals and never answers Busy.
\<close>

theorem reparse_is_busy:
  assumes "confreaderParseFile e d = Some (CONFREADER_OK, d')"
  shows "(0 < st_size e \<longrightarrow>
            (\<forall>e'. confreaderParseFile e' d' =
               Some (CONFREADER_ERROR, d'\<lparr>confreaderErrorNum := CONFREADER_EBUSY\<rparr>))) \<and>
         (st_size e = 0 \<longrightarrow>
            confreader_fileBuf d' = None \<and>
            (\<forall>e'. confreaderParseFile e' d' = confreaderParseFile e' (confreaderInit d') \<and>
               map_option (\<lambda>r. confreaderErrorNum (snd r)) (confreaderParseFile e' d') \<noteq>
                 Some CONFREADER_EBUSY))"
proof (intro conjI impI allI)
  from assms have l: "load_file e (confreaderInit (d\<lparr>confreaderErrorLineNum := 0\<rparr>)) =
      Some (CONFREADER_OK, d')"
    by (simp add: confreaderParseFile_def Let_def split: if_splits)
  {
    fix e' assume "0 < st_size e"
    from load_file_OK [OF l this]
    have "confreader_fileBuf d' \<noteq> None" and "confreaderErrorLineNum d' = 0"
      by (simp_all add: confreaderInit_def)
    then show "confreaderParseFile e' d' =
        Some (CONFREADER_ERROR, d'\<lparr>confreaderErrorNum := CONFREADER_EBUSY\<rparr>)"
      by (simp add: confreaderParseFile_def Let_def)
  }
  assume "st_size e = 0"
  with l have d': "released d'"
    by (auto simp: load_file_def released_def confreaderInit_def Let_def split: if_splits)
  then show "confreader_fileBuf d' = None" by (simp add: released_def)
  fix e'
  from d' have p: "confreaderParseFile e' d' = load_file e' (confreaderInit d')"
    by (simp add: confreaderParseFile_def released_def confreaderInit_def Let_def)
  have "confreaderParseFile e' (confreaderInit d') = load_file e' (confreaderInit d')"
    by (simp add: confreaderParseFile_def confreaderInit_def Let_def)
  with p show "confreaderParseFile e' d' = confreaderParseFile e' (confreaderInit d')"
    by simp
  from p load_file_not_busy [OF released_init, of e' d']
  show "map_option (\<lambda>r. confreaderErrorNum (snd r)) (confreaderParseFile e' d') \<noteq>
      Some CONFREADER_EBUSY"
    by simp
qed

theorem reparse_is_busy_witness:
  "confreaderParseFile (regular_file ''a=1'') unloaded = Some (CONFREADER_OK, doc_a1) \<and>
   0 < st_size (regular_file ''a=1'') \<and>
   confreaderParseFile (regular_file ''b=2'') doc_a1 =
     Some (CONFREADER_ERROR, doc_a1\<lparr>confreaderErrorNum := CONFREADER_EBUSY\<rparr>) \<and>
   confreaderParseFile (regular_file []) unloaded = Some (CONFREADER_OK, unloaded) \<and>
   st_size (regular_file []) = 0 \<and>
   confreader_fileBuf unloaded = None \<and>
   confreaderParseFile (regular_file ''a=1'') unloaded =
     confreaderParseFile (regular_file ''a=1'') (confreaderInit unloaded) \<and>
   map_option (\<lambda>r. confreaderErrorNum (snd r))
     (confreaderParseFile (regular_file ''a=1'') unloaded) \<noteq> Some CONFREADER_EBUSY"
proof -
  have n: "0 < st_size (regular_file ''a=1'')" and z: "st_size (regular_file []) = 0"
    by (simp_all add: regular_file_def)
  from reparse_is_busy [OF a1_parse] n
  have "confreaderParseFile (regular_file ''b=2'') doc_a1 =
      Some (CONFREADER_ERROR, doc_a1\<lparr>confreaderErrorNum := CONFREADER_EBUSY\<rparr>)"
    by blast
  moreover from reparse_is_busy [OF empty_parse] z
  have "confreader_fileBuf unloaded = None \<and>
    confreaderParseFile (regular_file ''a=1'') unloaded =
      confreaderParseFile (regular_file ''a=1'') (confreaderInit unloaded) \<and>
    map_option (\<lambda>r. confreaderErrorNum (snd r))
      (confreaderParseFile (regular_file ''a=1'') unloaded) \<noteq> Some CONFREADER_EBUSY"
    by blast
  ultimately show ?thesis using a1_parse empty_parse n z by blast
qed

theorem reparse_after_empty_file_counterexample:
  "confreaderParseFile (regular_file []) unloaded = Some (CONFREADER_OK, unloaded) \<and>
   confreaderParseFile (regular_file ''a=1'') unloaded = Some (CONFREADER_OK, doc_a1)"
  using empty_parse a1_parse by simp

text \<open>
  C7. On globals that hold no buffer, the parse of a file of size 0 returns
  \<^verbatim>\<open>CONFREADER_OK\<close>; afterwards there is no section table and the section count is 0,
  \<^verbatim>\<open>confreaderHasSection\<close> returns 0 for every name, and \<^verbatim>\<open>confreaderFind\<close> without a section
  returns \<^verbatim>\<open>NULL\<close> and sets \<^verbatim>\<open>CONFREADER_ENOPARAM\<close> for every key.
\<close>

theorem empty_file_parses:
  assumes "confreader_fileBuf d = None" and "open_ok e" and "fstat_ok e" and "st_size e = 0"
  shows "\<exists>d'. confreaderParseFile e d = Some (CONFREADER_OK, d') \<and>
           confreaderErrorNum d' = CONFREADER_OK \<and>
           confreaderSects d' = None \<and> confreaderSectCount d' = 0 \<and>
           (\<forall>name. confreaderHasSection name d' =
              Some (0, d'\<lparr>confreaderErrorNum := CONFREADER_ENOSECT\<rparr>)) \<and>
           (\<forall>key. confreaderFind key None d' =
              Some (None, d'\<lparr>confreaderErrorNum := CONFREADER_ENOPARAM\<rparr>))"
  using assms
  by (simp add: confreaderParseFile_def load_file_def confreaderInit_def Let_def
      confreaderHasSection_def section_named.simps confreaderFind_def)

theorem empty_file_parses_witness:
  "confreaderParseFile (regular_file []) unloaded = Some (CONFREADER_OK, unloaded) \<and>
   confreaderHasSection ''Sect'' unloaded =
     Some (0, unloaded\<lparr>confreaderErrorNum := CONFREADER_ENOSECT\<rparr>) \<and>
   confreaderFind ''Param'' None unloaded =
     Some (None, unloaded\<lparr>confreaderErrorNum := CONFREADER_ENOPARAM\<rparr>)"
  using empty_file_parses [of unloaded "regular_file []"] empty_parse
  by (simp add: regular_file_def unloaded_def)

lemmas lookup_eval = confreaderFind_def confreaderHasSection_def find_param.simps
  find_section.simps section_named.simps slot_def rd_def cstr_def strcasecmp_def c_string_def
  tolower_def

text \<open>The file \<^verbatim>\<open>A=1\n[Sect]\n\<close>: a header after the last parameter line.\<close>

definition doc_trailing :: confreader where
  "doc_trailing =
     \<lparr>confreader_fileBuf = Some (''A'' @ [NUL] @ ''1'' @ [NUL] @ ''[Sect]'' @ [NUL, NUL]),
      confreader_lines = None, confreader_lineCount = 3,
      confreader_params = Some [Some \<lparr>p_key = 0, p_value = 2\<rparr>],
      confreader_paramCount = 1, confreaderErrorNum = CONFREADER_OK,
      confreaderErrorLineNum = 0,
      confreaderSects = Some [Some \<lparr>s_size = 1, s_name = None, s_params = Some 0\<rparr>, None],
      confreaderSectCount = 2, heap_blocks = 3, open_fds = 0\<rparr>"

lemma trailing_split:
  "line_splitter (''A=1'' @ [LF] @ ''[Sect]'' @ [LF, LF]) [None, None, None] 0 1 0 0 =
     Some (Ok (''A=1'' @ [NUL] @ ''[Sect]'' @ [NUL, NUL], [Some 0, Some 4, Some 11], 2, 1))"
  by (simp add: split_eval)

lemma trailing_link:
  "linker [Some 0, Some 4, Some 11] 3 1 (''A=1'' @ [NUL] @ ''[Sect]'' @ [NUL, NUL])
     [Some \<lparr>s_size = 0, s_name = None, s_params = None\<rparr>, None] [None] 0 0 0 =
     Some (Ok (''A'' @ [NUL] @ ''1'' @ [NUL] @ ''[Sect]'' @ [NUL, NUL],
       [Some \<lparr>s_size = 1, s_name = None, s_params = Some 0\<rparr>, None],
       [Some \<lparr>p_key = 0, p_value = 2\<rparr>]))"
  by (simp add: link_eval)

lemma trailing_parse:
  "confreaderParseFile (regular_file (''A=1'' @ [LF] @ ''[Sect]'' @ [LF])) unloaded =
     Some (CONFREADER_OK, doc_trailing)"
  using trailing_split trailing_link by (simp add: parse_eval doc_trailing_def)

text \<open>
  C2 fails on the code. After the parse of \<^verbatim>\<open>A=1\n[Sect]\n\<close> the loop of pass 2 has stopped
  behind the only parameter line: slot 1 of the section table, counted by pass 1, was never
  written, and \<^verbatim>\<open>confreaderHasSection("Sect")\<close> reads the name pointer of that slot, which
  is undefined behaviour and not the answer 1.
\<close>

theorem header_after_last_parameter_unlinked:
  "confreaderParseFile (regular_file (''A=1'' @ [LF] @ ''[Sect]'' @ [LF])) unloaded =
     Some (CONFREADER_OK, doc_trailing) \<and>
   confreaderSectCount doc_trailing = 2 \<and>
   map_option (\<lambda>sects. slot sects 1) (confreaderSects doc_trailing) = Some None \<and>
   confreaderHasSection ''Sect'' doc_trailing = None"
  using trailing_parse by (simp add: doc_trailing_def lookup_eval)

text \<open>The file \<^verbatim>\<open>a = -\<close>.\<close>

definition doc_minus :: confreader where
  "doc_minus =
     \<lparr>confreader_fileBuf = Some (''a'' @ [NUL] @ ''= -'' @ [NUL]),
      confreader_lines = None, confreader_lineCount = 1,
      confreader_params = Some [Some \<lparr>p_key = 0, p_value = 4\<rparr>],
      confreader_paramCount = 1, confreaderErrorNum = CONFREADER_OK,
      confreaderErrorLineNum = 0,
      confreaderSects = Some [Some \<lparr>s_size = 1, s_name = None, s_params = Some 0\<rparr>],
      confreaderSectCount = 1, heap_blocks = 3, open_fds = 0\<rparr>"

lemma minus_split:
  "line_splitter (''a = -'' @ [LF]) [None] 0 1 0 0 =
     Some (Ok (''a = -'' @ [NUL], [Some 0], 1, 1))"
  by (simp add: split_eval)

lemma minus_link:
  "linker [Some 0] 1 1 (''a = -'' @ [NUL])
     [Some \<lparr>s_size = 0, s_name = None, s_params = None\<rparr>] [None] 0 0 0 =
     Some (Ok (''a'' @ [NUL] @ ''= -'' @ [NUL],
       [Some \<lparr>s_size = 1, s_name = None, s_params = Some 0\<rparr>],
       [Some \<lparr>p_key = 0, p_value = 4\<rparr>]))"
  by (simp add: link_eval)

lemma minus_parse:
  "confreaderParseFile (regular_file ''a = -'') unloaded = Some (CONFREADER_OK, doc_minus)"
  using minus_split minus_link by (simp add: parse_eval doc_minus_def)

text \<open>
  C4 fails on the code. The value \<^verbatim>\<open>-\<close> has no digit, yet \<^verbatim>\<open>confreaderGetInt\<close> accepts it:
  the first byte may be a minus sign and the loop over the other bytes finds none. The
  result is \<^verbatim>\<open>strtol("-")\<close>, that is 0, with \<^verbatim>\<open>CONFREADER_OK\<close>, and not the default 7 with
  \<^verbatim>\<open>CONFREADER_EINVVAL\<close>.
\<close>

theorem getInt_accepts_lone_minus:
  "confreaderParseFile (regular_file ''a = -'') unloaded = Some (CONFREADER_OK, doc_minus) \<and>
   confreaderFind ''a'' None doc_minus = Some (Some 4, doc_minus) \<and>
   map_option (\<lambda>buf. cstr buf 4) (confreader_fileBuf doc_minus) = Some (Some ''-'') \<and>
   confreaderGetInt ''a'' None 7 doc_minus = Some (0, doc_minus)"
  using minus_parse
  by (simp add: doc_minus_def lookup_eval confreaderGetInt_def int_tail.simps non_digit_def
      strtol10_def isspace_def digits_value_def long_to_int_def)

text \<open>The file \<^verbatim>\<open>=x\<close>.\<close>

definition doc_nokey :: confreader where
  "doc_nokey =
     \<lparr>confreader_fileBuf = Some ([NUL] @ ''x'' @ [NUL]),
      confreader_lines = None, confreader_lineCount = 1,
      confreader_params = Some [Some \<lparr>p_key = 0, p_value = 1\<rparr>],
      confreader_paramCount = 1, confreaderErrorNum = CONFREADER_OK,
      confreaderErrorLineNum = 0,
      confreaderSects = Some [Some \<lparr>s_size = 1, s_name = None, s_params = Some 0\<rparr>],
      confreaderSectCount = 1, heap_blocks = 3, open_fds = 0\<rparr>"

lemma nokey_split:
  "line_splitter (''=x'' @ [LF]) [None] 0 1 0 0 = Some (Ok (''=x'' @ [NUL], [Some 0], 1, 1))"
  by (simp add: split_eval)

lemma nokey_link:
  "linker [Some 0] 1 1 (''=x'' @ [NUL])
     [Some \<lparr>s_size = 0, s_name = None, s_params = None\<rparr>] [None] 0 0 0 =
     Some (Ok ([NUL] @ ''x'' @ [NUL],
       [Some \<lparr>s_size = 1, s_name = None, s_params = Some 0\<rparr>],
       [Some \<lparr>p_key = 0, p_value = 1\<rparr>]))"
  by (simp add: link_eval)

lemma nokey_parse:
  "confreaderParseFile (regular_file ''=x'') unloaded = Some (CONFREADER_OK, doc_nokey)"
  using nokey_split nokey_link by (simp add: parse_eval doc_nokey_def)

text \<open>
  C8 fails on the code. The line \<^verbatim>\<open>=x\<close> is a parameter line for both passes; the scan for
  the end of the name stops at its first byte, and the parameter is stored with the empty
  string as its key (and is found under that key).
\<close>

theorem parameter_with_empty_key:
  "confreaderParseFile (regular_file ''=x'') unloaded = Some (CONFREADER_OK, doc_nokey) \<and>
   map_option (\<lambda>params. slot params 0) (confreader_params doc_nokey) =
     Some (Some \<lparr>p_key = 0, p_value = 1\<rparr>) \<and>
   map_option (\<lambda>buf. cstr buf 0) (confreader_fileBuf doc_nokey) = Some (Some []) \<and>
   confreaderFind [] None doc_nokey = Some (Some 1, doc_nokey)"
  using nokey_parse by (simp add: doc_nokey_def lookup_eval)

section \<open>Strings in the buffer\<close>

lemma length_takeWhile_lt:
  "x \<in> set xs \<Longrightarrow> \<not> P x \<Longrightarrow> length (takeWhile P xs) < length xs"
  by (induction xs) auto

lemma cstr_SomeD:
  assumes "cstr buf i = Some v"
  shows "i + length v < length buf" and "buf ! (i + length v) = NUL"
    and "v = take (length v) (drop i buf)" and "NUL \<notin> set v"
proof -
  let ?r = "drop i buf"
  from assms have n: "NUL \<in> set ?r" and v: "v = takeWhile (\<lambda>c. c \<noteq> NUL) ?r"
    by (auto simp: cstr_def split: if_splits)
  from n have l: "length v < length ?r"
    unfolding v by (rule length_takeWhile_lt [where x = NUL]) simp_all
  then show "i + length v < length buf" by simp
  from l have "?r ! length v = NUL"
    unfolding v using nth_length_takeWhile [of "\<lambda>c. c \<noteq> NUL" ?r] by simp
  with l show "buf ! (i + length v) = NUL" by simp
  show "v = take (length v) ?r"
    unfolding v by (rule takeWhile_eq_take)
  show "NUL \<notin> set v"
    unfolding v by (auto dest: set_takeWhileD)
qed

lemma cstr_rd:
  assumes "cstr buf i = Some v"
  shows "rd buf i = Some (if v = [] then NUL else hd v)"
proof -
  from cstr_SomeD(1) [OF assms] have i: "i < length buf" by simp
  then have d: "drop i buf = buf ! i # drop (Suc i) buf"
    by (simp add: Cons_nth_drop_Suc)
  from assms have "v = takeWhile (\<lambda>c. c \<noteq> NUL) (drop i buf)"
    by (auto simp: cstr_def split: if_splits)
  with d have "v = (if buf ! i = NUL then [] else buf ! i # takeWhile (\<lambda>c. c \<noteq> NUL) (drop (Suc i) buf))"
    by simp
  with i show ?thesis by (auto simp: rd_def)
qed

lemma cstr_tl:
  assumes "cstr buf i = Some v" and "v \<noteq> []"
  shows "cstr buf (i + 1) = Some (tl v)"
proof -
  from cstr_SomeD(1) [OF assms(1)] have i: "i < length buf" by simp
  then have d: "drop i buf = buf ! i # drop (Suc i) buf"
    by (simp add: Cons_nth_drop_Suc)
  from assms d show ?thesis
    by (auto simp: cstr_def split: if_splits)
qed

lemma int_tail_cstr:
  "cstr buf i = Some v \<Longrightarrow> int_tail buf i = Some (list_all (\<lambda>c. \<not> non_digit c) v)"
proof (induction buf i arbitrary: v rule: int_tail.induct)
  case (1 buf i)
  from cstr_SomeD(1) [OF "1.prems"] have i: "i < length buf" by simp
  show ?case
  proof (cases v)
    case Nil
    with cstr_rd [OF "1.prems"] i show ?thesis
      by (subst int_tail.simps) (simp add: rd_def)
  next
    case (Cons c cs)
    with cstr_rd [OF "1.prems"] i have c: "buf ! i = c" by (simp add: rd_def)
    from cstr_SomeD(4) [OF "1.prems"] Cons have n: "c \<noteq> NUL" by auto
    from cstr_tl [OF "1.prems"] Cons have t: "cstr buf (i + 1) = Some cs" by simp
    show ?thesis
    proof (cases "non_digit c")
      case True
      with i c n Cons show ?thesis by (subst int_tail.simps) simp
    next
      case False
      with "1.IH" [OF i _ _ t] i c n have "int_tail buf (i + 1) = Some (list_all (\<lambda>c. \<not> non_digit c) cs)"
        by simp
      with False i c n Cons show ?thesis by (subst int_tail.simps) simp
    qed
  qed
qed

lemma double_tail_cstr:
  "cstr buf i = Some v \<Longrightarrow>
   double_tail buf i = Some (list_all (\<lambda>c. \<not> non_digit c \<or> c = CHR ''.'') v)"
proof (induction buf i arbitrary: v rule: double_tail.induct)
  case (1 buf i)
  from cstr_SomeD(1) [OF "1.prems"] have i: "i < length buf" by simp
  show ?case
  proof (cases v)
    case Nil
    with cstr_rd [OF "1.prems"] i show ?thesis
      by (subst double_tail.simps) (simp add: rd_def)
  next
    case (Cons c cs)
    with cstr_rd [OF "1.prems"] i have c: "buf ! i = c" by (simp add: rd_def)
    from cstr_SomeD(4) [OF "1.prems"] Cons have n: "c \<noteq> NUL" by auto
    from cstr_tl [OF "1.prems"] Cons have t: "cstr buf (i + 1) = Some cs" by simp
    show ?thesis
    proof (cases "non_digit c \<and> c \<noteq> CHR ''.''")
      case True
      with i c n Cons show ?thesis by (subst double_tail.simps) auto
    next
      case False
      with "1.IH" [OF i _ _ t] i c n
      have "double_tail buf (i + 1) = Some (list_all (\<lambda>c. \<not> non_digit c \<or> c = CHR ''.'') cs)"
        by auto
      with False i c n Cons show ?thesis by (subst double_tail.simps) auto
    qed
  qed
qed

text \<open>
  The two grammars of \<^verbatim>\<open>getDouble\<close>. The one the specification states: digits and dots
  only, after an optional leading minus sign. The one the code tests: a first byte that is
  a digit or the minus sign, then digits and dots only.
\<close>

definition stated_double_format :: "string \<Rightarrow> bool" where
  "stated_double_format v \<longleftrightarrow>
     list_all (\<lambda>c. \<not> non_digit c \<or> c = CHR ''.'') (if v \<noteq> [] \<and> hd v = CHR ''-'' then tl v else v)"

definition tested_double_format :: "string \<Rightarrow> bool" where
  "tested_double_format v \<longleftrightarrow>
     v \<noteq> [] \<and> (\<not> non_digit (hd v) \<or> hd v = CHR ''-'') \<and>
     list_all (\<lambda>c. \<not> non_digit c \<or> c = CHR ''.'') (tl v)"

text \<open>The files \<^verbatim>\<open>X = .5\<close> and \<^verbatim>\<open>X = 3.14.5\<close>.\<close>

definition doc_dot5 :: confreader where
  "doc_dot5 =
     \<lparr>confreader_fileBuf = Some (''X'' @ [NUL] @ ''= .5'' @ [NUL]),
      confreader_lines = None, confreader_lineCount = 1,
      confreader_params = Some [Some \<lparr>p_key = 0, p_value = 4\<rparr>],
      confreader_paramCount = 1, confreaderErrorNum = CONFREADER_OK,
      confreaderErrorLineNum = 0,
      confreaderSects = Some [Some \<lparr>s_size = 1, s_name = None, s_params = Some 0\<rparr>],
      confreaderSectCount = 1, heap_blocks = 3, open_fds = 0\<rparr>"

lemma dot5_split:
  "line_splitter (''X = .5'' @ [LF]) [None] 0 1 0 0 =
     Some (Ok (''X = .5'' @ [NUL], [Some 0], 1, 1))"
  by (simp add: split_eval)

lemma dot5_link:
  "linker [Some 0] 1 1 (''X = .5'' @ [NUL])
     [Some \<lparr>s_size = 0, s_name = None, s_params = None\<rparr>] [None] 0 0 0 =
     Some (Ok (''X'' @ [NUL] @ ''= .5'' @ [NUL],
       [Some \<lparr>s_size = 1, s_name = None, s_params = Some 0\<rparr>],
       [Some \<lparr>p_key = 0, p_value = 4\<rparr>]))"
  by (simp add: link_eval)

lemma dot5_parse:
  "confreaderParseFile (regular_file ''X = .5'') unloaded = Some (CONFREADER_OK, doc_dot5)"
  using dot5_split dot5_link by (simp add: parse_eval doc_dot5_def)

lemma dot5_find:
  "confreaderFind ''X'' None doc_dot5 = Some (Some 4, doc_dot5)"
  by (simp add: doc_dot5_def lookup_eval)

lemma dot5_value:
  "cstr (''X'' @ [NUL] @ ''= .5'' @ [NUL]) 4 = Some ''.5''"
  by (simp add: cstr_def)

definition doc_two_dots :: confreader where
  "doc_two_dots =
     \<lparr>confreader_fileBuf = Some (''X'' @ [NUL] @ ''= 3.14.5'' @ [NUL]),
      confreader_lines = None, confreader_lineCount = 1,
      confreader_params = Some [Some \<lparr>p_key = 0, p_value = 4\<rparr>],
      confreader_paramCount = 1, confreaderErrorNum = CONFREADER_OK,
      confreaderErrorLineNum = 0,
      confreaderSects = Some [Some \<lparr>s_size = 1, s_name = None, s_params = Some 0\<rparr>],
      confreaderSectCount = 1, heap_blocks = 3, open_fds = 0\<rparr>"

lemma two_dots_split:
  "line_splitter (''X = 3.14.5'' @ [LF]) [None] 0 1 0 0 =
     Some (Ok (''X = 3.14.5'' @ [NUL], [Some 0], 1, 1))"
  by (simp add: split_eval)

lemma two_dots_link:
  "linker [Some 0] 1 1 (''X = 3.14.5'' @ [NUL])
     [Some \<lparr>s_size = 0, s_name = None, s_params = None\<rparr>] [None] 0 0 0 =
     Some (Ok (''X'' @ [NUL] @ ''= 3.14.5'' @ [NUL],
       [Some \<lparr>s_size = 1, s_name = None, s_params = Some 0\<rparr>],
       [Some \<lparr>p_key = 0, p_value = 4\<rparr>]))"
  by (simp add: link_eval)

lemma two_dots_parse:
  "confreaderParseFile (regular_file ''X = 3.14.5'') unloaded =
     Some (CONFREADER_OK, doc_two_dots)"
  using two_dots_split two_dots_link by (simp add: parse_eval doc_two_dots_def)

lemma two_dots_find:
  "confreaderFind ''X'' None doc_two_dots = Some (Some 4, doc_two_dots)"
  by (simp add: doc_two_dots_def lookup_eval)

lemma two_dots_value:
  "cstr (''X'' @ [NUL] @ ''= 3.14.5'' @ [NUL]) 4 = Some ''3.14.5''"
  by (simp add: cstr_def)

text \<open>
  C5, as amended. Let \<^verbatim>\<open>confreaderFind\<close> succeed for a key and a section, and let \<open>val\<close> be
  the string its result points to. Then \<^verbatim>\<open>confreaderGetDouble\<close> returns the conversion of
  \<open>val\<close>, with the error number \<^verbatim>\<open>confreaderFind\<close> left, if and only if the first byte of \<open>val\<close>
  is a digit or the minus sign and every other byte is a digit or a dot; for every other
  value it returns the default and sets \<^verbatim>\<open>CONFREADER_EINVVAL\<close>. This is the format the
  specification states, without the values that are empty or start with a dot: \<^verbatim>\<open>3.14.5\<close>
  is converted, \<^verbatim>\<open>.5\<close> is not.
\<close>

theorem getDouble_converts:
  assumes f: "confreaderFind key section d = Some (Some v, d')"
    and b: "confreader_fileBuf d' = Some buf" and c: "cstr buf v = Some val"
  shows "confreaderGetDouble strtod key section dflt d =
           Some (if tested_double_format val then (strtod val, d')
                 else (dflt, d'\<lparr>confreaderErrorNum := CONFREADER_EINVVAL\<rparr>)) \<and>
         (tested_double_format val \<longleftrightarrow>
            stated_double_format val \<and> val \<noteq> [] \<and> hd val \<noteq> CHR ''.'')"
proof
  show "confreaderGetDouble strtod key section dflt d =
           Some (if tested_double_format val then (strtod val, d')
                 else (dflt, d'\<lparr>confreaderErrorNum := CONFREADER_EINVVAL\<rparr>))"
  proof (cases val)
    case Nil
    with cstr_rd [OF c] f b show ?thesis
      by (simp add: confreaderGetDouble_def tested_double_format_def non_digit_def)
  next
    case (Cons x xs)
    with cstr_rd [OF c] have r: "rd buf v = Some x" by simp
    from cstr_tl [OF c] Cons have "cstr buf (v + 1) = Some xs" by simp
    from double_tail_cstr [OF this]
    have t: "double_tail buf (v + 1) =
        Some (list_all (\<lambda>c. \<not> non_digit c \<or> c = CHR ''.'') xs)" .
    from f b c r t Cons show ?thesis
      by (auto simp: confreaderGetDouble_def tested_double_format_def)
  qed
  show "tested_double_format val \<longleftrightarrow>
          stated_double_format val \<and> val \<noteq> [] \<and> hd val \<noteq> CHR ''.''"
    by (cases val) (auto simp: tested_double_format_def stated_double_format_def non_digit_def)
qed

theorem getDouble_converts_witness:
  "confreaderParseFile (regular_file ''X = 3.14.5'') unloaded =
     Some (CONFREADER_OK, doc_two_dots) \<and>
   confreaderFind ''X'' None doc_two_dots = Some (Some 4, doc_two_dots) \<and>
   map_option (\<lambda>buf. cstr buf 4) (confreader_fileBuf doc_two_dots) = Some (Some ''3.14.5'') \<and>
   tested_double_format ''3.14.5'' \<and>
   confreaderGetDouble Some ''X'' None None doc_two_dots =
     Some (Some ''3.14.5'', doc_two_dots)"
proof -
  have b: "confreader_fileBuf doc_two_dots = Some (''X'' @ [NUL] @ ''= 3.14.5'' @ [NUL])"
    by (simp add: doc_two_dots_def)
  have t: "tested_double_format ''3.14.5''"
    by (simp add: tested_double_format_def non_digit_def)
  from getDouble_converts [OF two_dots_find b two_dots_value, of Some None] t
  have "confreaderGetDouble Some ''X'' None None doc_two_dots =
      Some (Some ''3.14.5'', doc_two_dots)"
    by simp
  with two_dots_parse two_dots_find two_dots_value b t show ?thesis by simp
qed

theorem getDouble_leading_dot_counterexample:
  "confreaderParseFile (regular_file ''X = .5'') unloaded = Some (CONFREADER_OK, doc_dot5) \<and>
   confreaderFind ''X'' None doc_dot5 = Some (Some 4, doc_dot5) \<and>
   map_option (\<lambda>buf. cstr buf 4) (confreader_fileBuf doc_dot5) = Some (Some ''.5'') \<and>
   stated_double_format ''.5'' \<and>
   confreaderGetDouble Some ''X'' None None doc_dot5 =
     Some (None, doc_dot5\<lparr>confreaderErrorNum := CONFREADER_EINVVAL\<rparr>)"
proof -
  have "stated_double_format ''.5''"
    by (simp add: stated_double_format_def non_digit_def)
  moreover have "map_option (\<lambda>buf. cstr buf 4) (confreader_fileBuf doc_dot5) = Some (Some ''.5'')"
    using dot5_value by (simp add: doc_dot5_def)
  moreover have "confreaderGetDouble Some ''X'' None None doc_dot5 =
      Some (None, doc_dot5\<lparr>confreaderErrorNum := CONFREADER_EINVVAL\<rparr>)"
    using dot5_find
    by (simp add: confreaderGetDouble_def doc_dot5_def rd_def non_digit_def)
  ultimately show ?thesis using dot5_parse dot5_find by simp
qed

section \<open>Pass 1 on the lines of the file\<close>

text \<open>
  The lines of a file: the runs of bytes between line feeds. The buffer is the file with
  one more line feed, so it is the concatenation of these lines, each followed by its line
  feed.
\<close>

fun split_lf :: "string \<Rightarrow> string list" where
  "split_lf [] = [[]]"
| "split_lf (c # cs) =
     (if c = LF then [] # split_lf cs
      else (case split_lf cs of [] \<Rightarrow> [[c]] | l # ls \<Rightarrow> (c # l) # ls))"

lemma split_lf_not_Nil: "split_lf s \<noteq> []"
  by (induction s) (auto split: list.splits)

lemma split_lf_no_LF: "l \<in> set (split_lf s) \<Longrightarrow> LF \<notin> set l"
  by (induction s arbitrary: l) (auto split: list.splits if_splits)

lemma concat_split_lf: "concat (map (\<lambda>l. l @ [LF]) (split_lf s)) = s @ [LF]"
  by (induction s) (auto split: list.splits simp: split_lf_not_Nil)

lemma length_split_lf: "length (split_lf s) = Suc (length (filter (\<lambda>c. c = LF) s))"
  by (induction s) (auto split: list.splits simp: split_lf_not_Nil)

lemma count_lines_filter:
  "count_lines buf i n = n + length (filter (\<lambda>c. c = LF) (drop i buf))"
proof (induction buf i n rule: count_lines.induct)
  case (1 buf i n)
  show ?case
  proof (cases "i < length buf")
    case True
    then have d: "drop i buf = buf ! i # drop (Suc i) buf"
      by (simp add: Cons_nth_drop_Suc)
    from True "1.IH" show ?thesis
      by (subst count_lines.simps) (simp add: d)
  next
    case False
    then show ?thesis by (subst count_lines.simps) simp
  qed
qed

lemma count_lines_split_lf: "count_lines (s @ [LF]) 0 0 = length (split_lf s)"
  by (simp add: count_lines_filter length_split_lf)

text \<open>A line with a carriage return that is not its last byte: the byte after that
  carriage return is not a line feed.\<close>

definition cr_inside :: "string \<Rightarrow> bool" where
  "cr_inside l \<longleftrightarrow> (\<exists>q. Suc q < length l \<and> l ! q = CR)"

lemma cr_inside_Nil [simp]: "\<not> cr_inside []"
  by (simp add: cr_inside_def)

lemma cr_inside_Cons: "cr_inside (c # cs) \<longleftrightarrow> cs \<noteq> [] \<and> (c = CR \<or> cr_inside cs)"
proof
  assume "cr_inside (c # cs)"
  then obtain q where q: "Suc q < length (c # cs)" "(c # cs) ! q = CR"
    by (auto simp: cr_inside_def)
  show "cs \<noteq> [] \<and> (c = CR \<or> cr_inside cs)"
  proof (cases q)
    case 0
    with q show ?thesis by auto
  next
    case (Suc r)
    with q have "Suc r < length cs" "cs ! r = CR" by auto
    then show ?thesis by (auto simp: cr_inside_def)
  qed
next
  assume a: "cs \<noteq> [] \<and> (c = CR \<or> cr_inside cs)"
  show "cr_inside (c # cs)"
  proof (cases "c = CR")
    case True
    with a have "Suc 0 < length (c # cs) \<and> (c # cs) ! 0 = CR" by (cases cs) auto
    then show ?thesis unfolding cr_inside_def by blast
  next
    case False
    with a obtain q where "Suc q < length cs" "cs ! q = CR" by (auto simp: cr_inside_def)
    then have "Suc (Suc q) < length (c # cs) \<and> (c # cs) ! Suc q = CR" by simp
    then show ?thesis unfolding cr_inside_def by blast
  qed
qed

lemma cr_inside_blank_prefix: "\<forall>c\<in>set b. blank c \<Longrightarrow> cr_inside (b @ l) \<longleftrightarrow> cr_inside l"
proof (induction b)
  case Nil
  show ?case by simp
next
  case (Cons a b)
  then have a: "a \<noteq> CR" and ih: "cr_inside (b @ l) \<longleftrightarrow> cr_inside l"
    by (simp_all add: blank_def) auto
  have "cr_inside (a # (b @ l)) \<longleftrightarrow> b @ l \<noteq> [] \<and> (a = CR \<or> cr_inside (b @ l))"
    by (rule cr_inside_Cons)
  with a ih have "cr_inside (a # (b @ l)) \<longleftrightarrow> b @ l \<noteq> [] \<and> cr_inside l" by simp
  moreover have "cr_inside l \<Longrightarrow> l \<noteq> []" by auto
  ultimately show ?case by auto
qed

text \<open>The line as pass 1 leaves it: the line feed, and a carriage return before it, are
  terminators.\<close>

definition ended :: "string \<Rightarrow> string" where
  "ended l = (if l \<noteq> [] \<and> last l = CR then butlast l @ [NUL, NUL] else l @ [NUL])"

lemma length_ended [simp]: "length (ended l) = Suc (length l)"
  by (simp add: ended_def)

lemma ended_Cons: "cs \<noteq> [] \<Longrightarrow> ended (c # cs) = c # ended cs"
  by (simp add: ended_def)

lemma ended_append: "l \<noteq> [] \<Longrightarrow> ended (b @ l) = b @ ended l"
  by (simp add: ended_def butlast_append)

lemma ended_blank: "\<forall>c\<in>set b. blank c \<Longrightarrow> ended b = b @ [NUL]"
  by (cases b rule: rev_cases) (auto simp: ended_def blank_def)

lemma nth_length_takeWhile_sentinel:
  "(l @ c # r) ! length (takeWhile P l) = hd (dropWhile P l @ [c])"
  by (induction l) auto

lemma skip_blank_takeWhile:
  "skip_blank buf i = i + length (takeWhile blank (drop i buf))"
proof (induction buf i rule: skip_blank.induct)
  case (1 buf i)
  show ?case
  proof (cases "i < length buf")
    case True
    then have d: "drop i buf = buf ! i # drop (Suc i) buf"
      by (simp add: Cons_nth_drop_Suc)
    from True "1.IH" show ?thesis
      by (subst skip_blank.simps) (simp add: d)
  next
    case False
    then show ?thesis by (subst skip_blank.simps) simp
  qed
qed

lemma skip_blank_line:
  assumes "\<not> blank c"
  shows "skip_blank (pre @ l @ c # rest) (length pre) = length pre + length (takeWhile blank l)"
proof -
  from assms have "takeWhile blank (l @ c # rest) = takeWhile blank l"
    by (induction l) auto
  then show ?thesis by (simp add: skip_blank_takeWhile)
qed

lemma scan_eol_line:
  "LF \<notin> set l \<Longrightarrow>
   scan_eol (pre @ l @ LF # rest) (length pre) =
     (if cr_inside l then Some Return
      else Some (Goes (pre @ ended l @ rest, length pre + length l)))"
proof (induction l arbitrary: pre)
  case Nil
  show ?case
    by (subst scan_eol.simps) (simp add: ended_def)
next
  case (Cons c cs)
  show ?case
  proof (cases "c = CR")
    case True
    show ?thesis
    proof (cases cs)
      case Nil
      with True show ?thesis
        by (subst scan_eol.simps)
          (simp add: rd_def nth_append ended_def cr_inside_Cons list_update_append)
    next
      case (Cons x xs)
      with True Cons.prems show ?thesis
        by (subst scan_eol.simps) (auto simp: rd_def nth_append cr_inside_Cons)
    qed
  next
    case False
    from Cons.prems have c: "c \<noteq> LF" and cs: "LF \<notin> set cs" by auto
    from Cons.IH [OF cs, of "pre @ [c]"]
    have ih: "scan_eol (pre @ c # cs @ LF # rest) (Suc (length pre)) =
        (if cr_inside cs then Some Return
         else Some (Goes (pre @ c # ended cs @ rest, Suc (length pre + length cs))))"
      by simp
    show ?thesis
    proof (cases cs)
      case Nil
      with False c ih show ?thesis
        by (subst scan_eol.simps) (simp add: cr_inside_Cons ended_def)
    next
      case (Cons x xs)
      then have "cs \<noteq> []" by simp
      with False c ih show ?thesis
        by (subst scan_eol.simps) (simp add: cr_inside_Cons ended_Cons)
    qed
  qed
qed

text \<open>What pass 1 computes, line by line.\<close>

fun split_result ::
  "string \<Rightarrow> nat option list \<Rightarrow> nat \<Rightarrow> nat \<Rightarrow> nat \<Rightarrow> string list \<Rightarrow>
   (string \<times> nat option list \<times> nat \<times> nat, nat \<times> nat) outcome" where
  "split_result pre lines n sc pc [] = Ok (pre, lines, sc, pc)"
| "split_result pre lines n sc pc (l # ls) =
     (let c = hd (dropWhile blank l @ [LF]) in
      if cr_inside l then ParseFail (n + 1, tally_param c pc)
      else split_result (pre @ ended l)
             (lines[n := Some (length pre + length (takeWhile blank l))]) (n + 1)
             (tally_section c sc) (tally_param c pc) ls)"

lemma line_splitter_lines:
  assumes "\<forall>l\<in>set ls. LF \<notin> set l" and "n + length ls \<le> length lines"
  shows "line_splitter (pre @ concat (map (\<lambda>l. l @ [LF]) ls)) lines n sc pc (length pre) =
           Some (split_result pre lines n sc pc ls)"
  using assms
proof (induction ls arbitrary: pre lines n sc pc)
  case Nil
  show ?case by (subst line_splitter.simps) simp
next
  case (Cons l ls)
  let ?rest = "concat (map (\<lambda>l. l @ [LF]) ls)"
  let ?buf = "pre @ l @ LF # ?rest"
  let ?b = "takeWhile blank l" and ?t = "dropWhile blank l"
  from Cons.prems have lf: "LF \<notin> set l" and n: "n < length lines" by auto
  have nb: "\<not> blank LF" by (simp add: blank_def)
  have i1: "skip_blank ?buf (length pre) = length pre + length ?b"
    by (rule skip_blank_line [OF nb])
  have "?buf ! (length pre + length ?b) = (l @ LF # ?rest) ! length ?b"
    by (rule nth_append_length_plus)
  also have "\<dots> = hd (?t @ [LF])"
    by (rule nth_length_takeWhile_sentinel)
  finally have "?buf ! (length pre + length ?b) = hd (?t @ [LF])" .
  moreover have "length pre + length ?b < length ?buf"
    using length_takeWhile_le [of blank l] by simp
  ultimately have c: "rd ?buf (length pre + length ?b) = Some (hd (?t @ [LF]))"
    by (simp only: rd_def if_True)
  have split: "(pre @ ?b) @ ?t @ LF # ?rest = ?buf" by simp
  have lp: "length (pre @ ?b) = length pre + length ?b" by simp
  have cri: "cr_inside ?t = cr_inside l"
    using cr_inside_blank_prefix [of ?b ?t] by (auto dest: set_takeWhileD)
  have be: "?b @ ended ?t = ended l"
  proof (cases "?t = []")
    case True
    then have "\<forall>c\<in>set l. blank c" by (simp add: dropWhile_eq_Nil_conv)
    from ended_blank [OF this] True show ?thesis by (simp add: ended_def)
  next
    case False
    from ended_append [OF this, of ?b] show ?thesis by simp
  qed
  have e1: "(pre @ ?b) @ ended ?t @ ?rest = pre @ ended l @ ?rest"
    by (simp only: append_assoc be [symmetric])
  have len: "length ?b + length ?t = length l"
  proof -
    have "length ?b + length ?t = length (?b @ ?t)" by (simp only: length_append)
    also have "\<dots> = length l" by (simp only: takeWhile_dropWhile_id)
    finally show ?thesis .
  qed
  then have len2: "length pre + length ?b + length ?t = length pre + length l" by simp
  from lf have "LF \<notin> set ?t" by (auto dest: set_dropWhileD)
  from scan_eol_line [OF this, of "pre @ ?b" ?rest]
  have scan: "scan_eol ?buf (length pre + length ?b) =
      (if cr_inside l then Some Return
       else Some (Goes (pre @ ended l @ ?rest, length pre + length l)))"
    by (simp only: split lp cri e1 len2)
  from Cons.prems have "\<forall>l\<in>set ls. LF \<notin> set l"
    and "Suc n + length ls \<le> length (lines[n := Some (length pre + length ?b)])"
    by auto
  from Cons.IH [OF this, of "pre @ ended l"]
  have ih: "\<And>sc pc. line_splitter (pre @ ended l @ ?rest)
              (lines[n := Some (length pre + length ?b)]) (Suc n) sc pc
              (Suc (length pre + length l)) =
            Some (split_result (pre @ ended l)
              (lines[n := Some (length pre + length ?b)]) (Suc n) sc pc ls)"
    by simp
  have "length pre < length ?buf" by simp
  then show ?case
    by (subst line_splitter.simps) (simp add: i1 n c scan ih Let_def)
qed

lemma split_result_ParseFail:
  "split_result pre lines n sc pc ls = ParseFail (m, pc') \<Longrightarrow>
   \<exists>k<length ls. cr_inside (ls ! k) \<and> (\<forall>j<k. \<not> cr_inside (ls ! j)) \<and> m = n + k + 1"
proof (induction ls arbitrary: pre lines n sc pc)
  case Nil
  then show ?case by simp
next
  case (Cons l ls)
  show ?case
  proof (cases "cr_inside l")
    case True
    with Cons.prems have "m = n + 1" by (simp add: Let_def)
    with True show ?thesis by (intro exI [of _ 0]) simp
  next
    case False
    with Cons.prems obtain pre' lines' sc' pc0
      where "split_result pre' lines' (n + 1) sc' pc0 ls = ParseFail (m, pc')"
      by (auto simp: Let_def)
    from Cons.IH [OF this] obtain k
      where k: "k < length ls" "cr_inside (ls ! k)" "\<forall>j<k. \<not> cr_inside (ls ! j)"
        "m = n + 1 + k + 1"
      by auto
    have "\<forall>j<Suc k. \<not> cr_inside ((l # ls) ! j)"
    proof (intro allI impI)
      fix j assume "j < Suc k"
      with False k(3) show "\<not> cr_inside ((l # ls) ! j)" by (cases j) auto
    qed
    with k show ?thesis by (intro exI [of _ "Suc k"]) simp
  qed
qed

lemma split_result_first_cr:
  "k < length ls \<Longrightarrow> cr_inside (ls ! k) \<Longrightarrow> \<forall>j<k. \<not> cr_inside (ls ! j) \<Longrightarrow>
   \<exists>pc'. split_result pre lines n sc pc ls = ParseFail (n + k + 1, pc')"
proof (induction ls arbitrary: pre lines n sc pc k)
  case Nil
  then show ?case by simp
next
  case (Cons l ls)
  show ?case
  proof (cases k)
    case 0
    with Cons.prems show ?thesis by (simp add: Let_def)
  next
    case (Suc k')
    with Cons.prems have l: "\<not> cr_inside l" and k': "k' < length ls" "cr_inside (ls ! k')"
      "\<forall>j<k'. \<not> cr_inside (ls ! j)"
      by auto
    from Cons.IH [OF k', of "pre @ ended l"
        "lines[n := Some (length pre + length (takeWhile blank l))]" "Suc n"
        "tally_section (hd (dropWhile blank l @ [LF])) sc"
        "tally_param (hd (dropWhile blank l @ [LF])) pc"] l Suc
    show ?thesis by (simp add: Let_def)
  qed
qed

lemma split_result_Ok:
  "\<forall>l\<in>set ls. \<not> cr_inside l \<Longrightarrow>
   \<exists>lines' sc' pc'. split_result pre lines n sc pc ls =
      Ok (pre @ concat (map ended ls), lines', sc', pc')"
proof (induction ls arbitrary: pre lines n sc pc)
  case Nil
  then show ?case by simp
next
  case (Cons l ls)
  from Cons.prems have l: "\<not> cr_inside l" and ls: "\<forall>l\<in>set ls. \<not> cr_inside l" by auto
  from Cons.IH [OF ls, of "pre @ ended l"] l show ?case by (simp add: Let_def)
qed

lemma line_splitter_file:
  "line_splitter (s @ [LF]) (replicate (length (split_lf s)) None) 0 (Suc 0) 0 0 =
     Some (split_result [] (replicate (length (split_lf s)) None) 0 (Suc 0) 0 (split_lf s))"
proof -
  have "line_splitter ([] @ concat (map (\<lambda>l. l @ [LF]) (split_lf s)))
          (replicate (length (split_lf s)) None) 0 (Suc 0) 0 (length ([] :: string)) =
        Some (split_result [] (replicate (length (split_lf s)) None) 0 (Suc 0) 0 (split_lf s))"
    by (rule line_splitter_lines) (auto dest: split_lf_no_LF)
  then show ?thesis by (simp add: concat_split_lf)
qed

text \<open>A parse that gets as far as pass 1: the file is read whole into the buffer and the
  array of line offsets is allocated.\<close>

lemma parse_fails_in_split:
  assumes "confreader_fileBuf d = None" and "open_ok e" and "fstat_ok e"
    and "st_size e = length s" and "read_delivers e = s" and "s \<noteq> []"
    and "length s < INT_MAX" and "malloc_ok e BufBlock" and "malloc_ok e LinesBlock"
    and "split_result [] (replicate (length (split_lf s)) None) 0 (Suc 0) 0 (split_lf s) =
          ParseFail (n, paramCount)"
  shows "\<exists>d'. confreaderParseFile e d = Some (CONFREADER_ERROR, d') \<and>
          confreaderErrorNum d' = CONFREADER_EPARSINGFILE \<and> confreaderErrorLineNum d' = n"
  using assms
  by (simp add: confreaderParseFile_def load_file_def split_lines_def confreaderInit_def
      Let_def count_lines_split_lf line_splitter_file parse_failure_def)

lemma parse_reaches_link:
  assumes "confreader_fileBuf d = None" and "open_ok e" and "fstat_ok e"
    and "st_size e = length s" and "read_delivers e = s" and "s \<noteq> []"
    and "length s < INT_MAX" and "malloc_ok e BufBlock" and "malloc_ok e LinesBlock"
    and "split_result [] (replicate (length (split_lf s)) None) 0 (Suc 0) 0 (split_lf s) =
          Ok (buf', lines', sectCount, paramCount)"
  shows "\<exists>d1. confreaderParseFile e d = link_all e d1 \<and>
          confreader_fileBuf d1 = Some buf' \<and> confreader_lines d1 = Some lines' \<and>
          confreader_lineCount d1 = length (split_lf s) \<and>
          confreader_paramCount d1 = paramCount \<and> confreaderSectCount d1 = sectCount \<and>
          confreader_params d1 = None \<and> confreaderSects d1 = None \<and>
          confreaderErrorLineNum d1 = 0"
  using assms
  apply (simp add: confreaderParseFile_def load_file_def split_lines_def confreaderInit_def
      Let_def count_lines_split_lf line_splitter_file)
  apply (rule exI)
  apply (rule conjI)
   apply (rule refl)
  apply simp
  done

lemma small_file: "n \<le> 100 \<Longrightarrow> n < INT_MAX"
  by (simp add: INT_MAX_def)

text \<open>
  C9, as amended. Let the file be read whole into the buffer and the array of line
  offsets be allocated. If some line of the file (a run of bytes between line feeds) has
  a carriage return that is not its last byte, then the parse fails with
  \<^verbatim>\<open>CONFREADER_EPARSINGFILE\<close> and the 1-based number of the first such line. If no line has
  one, pass 1 accepts every line: it ends with the buffer in which every line feed, and
  the carriage return before it, is a terminator. A carriage return that is the last byte
  of the file is followed by the line feed the loader appends, and is accepted.
\<close>

theorem carriage_return_handling:
  assumes "confreader_fileBuf d = None" and "open_ok e" and "fstat_ok e"
    and "st_size e = length s" and "read_delivers e = s" and "s \<noteq> []"
    and "length s < INT_MAX" and "malloc_ok e BufBlock" and "malloc_ok e LinesBlock"
  shows "(\<forall>k<length (split_lf s).
            cr_inside (split_lf s ! k) \<and> (\<forall>j<k. \<not> cr_inside (split_lf s ! j)) \<longrightarrow>
            (\<exists>d'. confreaderParseFile e d = Some (CONFREADER_ERROR, d') \<and>
                  confreaderErrorNum d' = CONFREADER_EPARSINGFILE \<and>
                  confreaderErrorLineNum d' = k + 1)) \<and>
         ((\<forall>l\<in>set (split_lf s). \<not> cr_inside l) \<longrightarrow>
            (\<exists>lines sectCount paramCount.
               line_splitter (s @ [LF]) (replicate (length (split_lf s)) None) 0 1 0 0 =
                 Some (Ok (concat (map ended (split_lf s)), lines, sectCount, paramCount))))"
proof (intro conjI allI impI)
  fix k
  assume "k < length (split_lf s)"
    and "cr_inside (split_lf s ! k) \<and> (\<forall>j<k. \<not> cr_inside (split_lf s ! j))"
  from split_result_first_cr [of k "split_lf s" "[]"
      "replicate (length (split_lf s)) None" 0 1 0] this
  obtain pc' where "split_result [] (replicate (length (split_lf s)) None) 0 1 0 (split_lf s) =
      ParseFail (k + 1, pc')"
    by auto
  with parse_fails_in_split [OF assms, of "k + 1" pc']
  show "\<exists>d'. confreaderParseFile e d = Some (CONFREADER_ERROR, d') \<and>
          confreaderErrorNum d' = CONFREADER_EPARSINGFILE \<and> confreaderErrorLineNum d' = k + 1"
    by simp
next
  assume "\<forall>l\<in>set (split_lf s). \<not> cr_inside l"
  from split_result_Ok [OF this, of "[]" "replicate (length (split_lf s)) None" 0 1 0]
  show "\<exists>lines sectCount paramCount.
      line_splitter (s @ [LF]) (replicate (length (split_lf s)) None) 0 1 0 0 =
        Some (Ok (concat (map ended (split_lf s)), lines, sectCount, paramCount))"
    by (simp add: line_splitter_file)
qed

text \<open>The files \<^verbatim>\<open>a=1\r\nb\rc\<close> and \<^verbatim>\<open>a=1\r\<close>.\<close>

lemma crlf_split:
  "line_splitter (''a=1'' @ [CR, LF] @ ''b'' @ [CR] @ ''c'' @ [LF]) [None, None] 0 1 0 0 =
     Some (ParseFail (2, 2))"
  by (simp add: split_eval)

lemma crlf_parse:
  "confreaderParseFile (regular_file (''a=1'' @ [CR, LF] @ ''b'' @ [CR] @ ''c'')) unloaded =
     Some (CONFREADER_ERROR,
       unloaded\<lparr>confreader_lineCount := 2, confreader_paramCount := 2,
         confreaderErrorNum := CONFREADER_EPARSINGFILE, confreaderErrorLineNum := 2\<rparr>)"
  using crlf_split by (simp add: parse_eval)

definition doc_cr :: confreader where
  "doc_cr =
     \<lparr>confreader_fileBuf = Some (''a'' @ [NUL] @ ''1'' @ [NUL, NUL]), confreader_lines = None,
      confreader_lineCount = 1, confreader_params = Some [Some \<lparr>p_key = 0, p_value = 2\<rparr>],
      confreader_paramCount = 1, confreaderErrorNum = CONFREADER_OK,
      confreaderErrorLineNum = 0,
      confreaderSects = Some [Some \<lparr>s_size = 1, s_name = None, s_params = Some 0\<rparr>],
      confreaderSectCount = 1, heap_blocks = 3, open_fds = 0\<rparr>"

lemma cr_split:
  "line_splitter (''a=1'' @ [CR, LF]) [None] 0 1 0 0 =
     Some (Ok (''a=1'' @ [NUL, NUL], [Some 0], 1, 1))"
  by (simp add: split_eval)

lemma cr_link:
  "linker [Some 0] 1 1 (''a=1'' @ [NUL, NUL])
     [Some \<lparr>s_size = 0, s_name = None, s_params = None\<rparr>] [None] 0 0 0 =
     Some (Ok (''a'' @ [NUL] @ ''1'' @ [NUL, NUL],
       [Some \<lparr>s_size = 1, s_name = None, s_params = Some 0\<rparr>],
       [Some \<lparr>p_key = 0, p_value = 2\<rparr>]))"
  by (simp add: link_eval)

lemma cr_parse:
  "confreaderParseFile (regular_file (''a=1'' @ [CR])) unloaded = Some (CONFREADER_OK, doc_cr)"
  using cr_split cr_link by (simp add: parse_eval doc_cr_def)

theorem carriage_return_handling_witness:
  "confreaderParseFile (regular_file (''a=1'' @ [CR, LF] @ ''b'' @ [CR] @ ''c'')) unloaded =
     Some (CONFREADER_ERROR,
       unloaded\<lparr>confreader_lineCount := 2, confreader_paramCount := 2,
         confreaderErrorNum := CONFREADER_EPARSINGFILE, confreaderErrorLineNum := 2\<rparr>) \<and>
   split_lf (''a=1'' @ [CR, LF] @ ''b'' @ [CR] @ ''c'') = [''a=1'' @ [CR], ''b'' @ [CR] @ ''c''] \<and>
   cr_inside (''b'' @ [CR] @ ''c'') \<and>
   line_splitter (''a=1'' @ [CR, LF]) [None] 0 1 0 0 =
     Some (Ok (''a=1'' @ [NUL, NUL], [Some 0], 1, 1))"
proof -
  have s: "split_lf (''a=1'' @ [CR, LF] @ ''b'' @ [CR] @ ''c'') =
      [''a=1'' @ [CR], ''b'' @ [CR] @ ''c'']"
    by simp
  have c: "cr_inside (''b'' @ [CR] @ ''c'')" "\<not> cr_inside (''a=1'' @ [CR])"
    by (simp_all add: cr_inside_Cons)
  have "\<exists>d'. confreaderParseFile
          (regular_file (''a=1'' @ [CR, LF] @ ''b'' @ [CR] @ ''c'')) unloaded =
          Some (CONFREADER_ERROR, d') \<and>
        confreaderErrorNum d' = CONFREADER_EPARSINGFILE \<and> confreaderErrorLineNum d' = 1 + 1"
    using carriage_return_handling [of unloaded
        "regular_file (''a=1'' @ [CR, LF] @ ''b'' @ [CR] @ ''c'')"
        "''a=1'' @ [CR, LF] @ ''b'' @ [CR] @ ''c''", THEN conjunct1, rule_format, of 1] s c
    by (simp add: regular_file_def unloaded_def small_file less_Suc_eq)
  with crlf_parse cr_split s c show ?thesis by simp
qed

theorem carriage_return_at_end_counterexample:
  "last (''a=1'' @ [CR]) = CR \<and>
   confreaderParseFile (regular_file (''a=1'' @ [CR])) unloaded = Some (CONFREADER_OK, doc_cr)"
  using cr_parse by simp

section \<open>The loops of pass 2 on one line\<close>

text \<open>The buffer is \<open>pre @ t @ NUL # rest\<close>: a line \<open>t\<close> without terminator, at offset
  \<open>length pre\<close>, followed by its terminator.\<close>

lemma fold_separator:
  "(c = CHR ''='' \<or> c = CHR '' '' \<or> c = HT) = separator c"
  "(c \<noteq> CHR ''='' \<and> c \<noteq> CHR '' '' \<and> c \<noteq> HT) = (\<not> separator c)"
  by (auto simp: separator_def)



lemma separator_not_NUL [simp]: "\<not> separator NUL" "\<not> marker NUL" "\<not> blank NUL"
  by (simp_all add: separator_def marker_def blank_def)



lemma skip_sep_takeWhile:
  "skip_sep buf i = i + length (takeWhile separator (drop i buf))"
proof (induction buf i rule: skip_sep.induct)
  case (1 buf i)
  show ?case
  proof (cases "i < length buf")
    case True
    then have d: "drop i buf = buf ! i # drop (Suc i) buf"
      by (simp add: Cons_nth_drop_Suc)
    from True "1.IH" show ?thesis
      by (subst skip_sep.simps) (auto simp: d fold_separator)
  next
    case False
    then show ?thesis by (subst skip_sep.simps) simp
  qed
qed

lemma skip_sep_line:
  assumes "\<not> separator c"
  shows "skip_sep (pre @ l @ c # rest) (length pre) = length pre + length (takeWhile separator l)"
proof -
  from assms have "takeWhile separator (l @ c # rest) = takeWhile separator l"
    by (induction l) auto
  then show ?thesis by (simp add: skip_sep_takeWhile)
qed








lemma hd_sentinel_eq: "x \<notin> set xs \<Longrightarrow> (hd (xs @ [x]) = x) = (xs = [])"
  by (cases xs) auto










lemma dropWhile_append_stop:
  "\<forall>c\<in>set xs. P c \<Longrightarrow> ys = [] \<or> \<not> P (hd ys) \<Longrightarrow> dropWhile P (xs @ ys) = ys"
  by (cases ys) (simp_all add: dropWhile_append3)






section \<open>The document a file denotes\<close>

text \<open>
  After sections 3, 4.3 and 6 of the specification. A line is read without its leading
  blanks and without the carriage return at its end; a null byte ends it early. A line that
  starts with a bracket opens a section, whose name is what stands before the closing
  bracket; a line that starts with a comment marker, and an empty line, adds nothing; any
  other line is a parameter of the section opened last. Its key ends before the first
  separator; its value field starts behind the run of separators that follows the key.
\<close>

definition line_text :: "string \<Rightarrow> string" where
  "line_text l =
     takeWhile (\<lambda>c. c \<noteq> NUL)
       (dropWhile blank (if l \<noteq> [] \<and> last l = CR then butlast l else l))"

definition is_header :: "string \<Rightarrow> bool" where
  "is_header t \<longleftrightarrow> t \<noteq> [] \<and> hd t = CHR ''[''"





type_synonym section_view = "string option \<times> (string \<times> string) list"


















section \<open>The tables of pass 2 and the document\<close>

text \<open>
  The parameter table holds the parameters of the document in order, as pointers to
  their keys and values; the slots behind them were never written. Each slot of the
  section table written so far holds the name, the number of parameters, and the pointer
  to the first parameter of its section.
\<close>

definition params_match ::
  "string \<Rightarrow> ConfreaderParam option list \<Rightarrow> (string \<times> string) list \<Rightarrow> bool" where
  "params_match buf params kvs \<longleftrightarrow>
     length kvs \<le> length params \<and>
     (\<forall>j<length kvs. \<exists>p. params ! j = Some p \<and>
        cstr buf (p_key p) = Some (fst (kvs ! j)) \<and>
        cstr buf (p_value p) = Some (snd (kvs ! j))) \<and>
     (\<forall>j. length kvs \<le> j \<and> j < length params \<longrightarrow> params ! j = None)"

definition sect_match :: "string \<Rightarrow> ConfreaderSection \<Rightarrow> section_view \<Rightarrow> nat \<Rightarrow> bool" where
  "sect_match buf s sv base \<longleftrightarrow>
     (case fst sv of
        None \<Rightarrow> s_name s = None
      | Some nm \<Rightarrow> \<exists>off. s_name s = Some off \<and> cstr buf off = Some nm) \<and>
     s_size s = length (snd sv) \<and>
     s_params s = (if snd sv = [] then None else Some base)"

definition params_before :: "section_view list \<Rightarrow> nat \<Rightarrow> nat" where
  "params_before A i = length (concat (map snd (take i A)))"

definition sects_match ::
  "string \<Rightarrow> ConfreaderSection option list \<Rightarrow> section_view list \<Rightarrow> bool" where
  "sects_match buf sects A \<longleftrightarrow>
     length A \<le> length sects \<and>
     (\<forall>i<length A. \<exists>s. sects ! i = Some s \<and> sect_match buf s (A ! i) (params_before A i))"

definition sim ::
  "string \<Rightarrow> ConfreaderSection option list \<Rightarrow> ConfreaderParam option list \<Rightarrow> nat \<Rightarrow> nat \<Rightarrow>
   section_view list \<Rightarrow> bool" where
  "sim buf sects params sectIdx paramIdx A \<longleftrightarrow>
     A \<noteq> [] \<and> sectIdx + 1 = length A \<and> paramIdx = length (concat (map snd A)) \<and>
     sects_match buf sects A \<and> params_match buf params (concat (map snd A))"









section \<open>One line of pass 2 and the document\<close>








section \<open>What pass 1 hands to pass 2\<close>

text \<open>The offsets pass 1 stores for the lines that start at offset \<open>b\<close>, the first byte by
  which it classifies a line, and its two counters over a list of lines.\<close>

fun offsets :: "nat \<Rightarrow> string list \<Rightarrow> nat list" where
  "offsets b [] = []"
| "offsets b (l # ls) = (b + length (takeWhile blank l)) # offsets (b + length l + 1) ls"

definition first_byte :: "string \<Rightarrow> char" where
  "first_byte l = hd (dropWhile blank l @ [LF])"



lemma length_offsets [simp]: "length (offsets b ls) = length ls"
  by (induction ls arbitrary: b) auto








definition line_base :: "string \<Rightarrow> string" where
  "line_base l = (if l \<noteq> [] \<and> last l = CR then butlast l else l)"

lemma line_text_base: "line_text l = takeWhile (\<lambda>c. c \<noteq> NUL) (dropWhile blank (line_base l))"
  by (simp add: line_text_def line_base_def)




lemma text_first_byte:
  assumes "line_text l \<noteq> []"
  shows "first_byte l = hd (line_text l)" and "hd (line_text l) \<in> set (line_base l)"
    and "hd (line_text l) \<noteq> NUL"
proof -
  let ?d = "dropWhile blank (line_base l)"
  from assms have d: "?d \<noteq> []" and h: "hd (line_text l) = hd ?d" and n: "hd ?d \<noteq> NUL"
    unfolding line_text_base by (cases ?d; auto split: if_splits)+
  from d have nb: "\<not> (\<forall>c\<in>set (line_base l). blank c)" by simp
  have "dropWhile blank l \<noteq> [] \<and> hd (dropWhile blank l) = hd ?d"
  proof (cases "l \<noteq> [] \<and> last l = CR")
    case True
    then have "l = line_base l @ [CR]"
      using append_butlast_last_id [of l] by (simp add: line_base_def)
    then have "dropWhile blank l = dropWhile blank (line_base l @ [CR])" by simp
    also from nb have "\<dots> = ?d @ [CR]" by (auto intro: dropWhile_append1)
    finally show ?thesis using d by simp
  next
    case False
    then have "line_base l = l" by (auto simp: line_base_def)
    with d show ?thesis by simp
  qed
  with h show "first_byte l = hd (line_text l)" by (simp add: first_byte_def)
  from d have "hd ?d \<in> set ?d" by simp
  with h show "hd (line_text l) \<in> set (line_base l)" by (auto dest: set_dropWhileD)
  from h n show "hd (line_text l) \<noteq> NUL" by simp
qed


lemma other_not_counted:
  "\<not> is_header (line_text l) \<Longrightarrow> line_text l \<noteq> [] \<Longrightarrow>
   tally_section (first_byte l) sc = sc"
  using text_first_byte(1) [of l] by (auto simp: is_header_def tally_section_def)




section \<open>Pass 2 over the lines\<close>





section \<open>The tables after a successful parse\<close>







section \<open>Lookup in the tables of a document\<close>

lemma concat_snd_nth:
  assumes "i < length A"
  shows "params_before A i + length (snd (A ! i)) \<le> length (concat (map snd A))"
    and "j < length (snd (A ! i)) \<Longrightarrow>
         concat (map snd A) ! (params_before A i + j) = snd (A ! i) ! j"
proof -
  have "concat (map snd (take i A @ A ! i # drop (Suc i) A)) =
      concat (map snd (take i A)) @ snd (A ! i) @ concat (map snd (drop (Suc i) A))"
    by simp
  then have c: "concat (map snd A) =
      concat (map snd (take i A)) @ snd (A ! i) @ concat (map snd (drop (Suc i) A))"
    by (simp only: id_take_nth_drop [OF assms, symmetric])
  show "params_before A i + length (snd (A ! i)) \<le> length (concat (map snd A))"
    by (subst c) (simp add: params_before_def)
  show "concat (map snd A) ! (params_before A i + j) = snd (A ! i) ! j"
    if "j < length (snd (A ! i))"
    using that by (subst c) (simp add: params_before_def nth_append)
qed

text \<open>The search of a section's parameters returns the value of the first key that
  matches.\<close>

lemma find_param_first:
  assumes d: "confreader_fileBuf d = Some buf" "confreader_params d = Some params"
    and pm: "params_match buf params kvs"
    and n: "b + n \<le> length kvs" and j0: "j0 < n"
    and hit: "strcasecmp key (fst (kvs ! (b + j0)))"
  shows "j \<le> j0 \<Longrightarrow> \<forall>j'. j \<le> j' \<and> j' < j0 \<longrightarrow> \<not> strcasecmp key (fst (kvs ! (b + j'))) \<Longrightarrow>
         \<exists>p. params ! (b + j0) = Some p \<and>
             cstr buf (p_value p) = Some (snd (kvs ! (b + j0))) \<and>
             find_param key d (Some b) n j = Some (Some (p_value p))"
proof (induction "j0 - j" arbitrary: j)
  case 0
  then have j: "j = j0" by simp
  from n j0 have lt: "b + j0 < length kvs" by simp
  with pm obtain p where p: "params ! (b + j0) = Some p"
    "cstr buf (p_key p) = Some (fst (kvs ! (b + j0)))"
    "cstr buf (p_value p) = Some (snd (kvs ! (b + j0)))"
    by (auto simp: params_match_def)
  from pm lt have "b + j0 < length params" by (simp add: params_match_def)
  with p d hit j0 j show ?case
    by (subst find_param.simps) (simp add: slot_def)
next
  case (Suc x)
  then have lt: "j < j0" and miss: "\<not> strcasecmp key (fst (kvs ! (b + j)))" by auto
  from n j0 lt have l: "b + j < length kvs" by simp
  with pm obtain p where p: "params ! (b + j) = Some p"
    "cstr buf (p_key p) = Some (fst (kvs ! (b + j)))"
    by (auto simp: params_match_def)
  from pm l have pl: "b + j < length params" by (simp add: params_match_def)
  from Suc.hyps(2) have "x = j0 - (j + 1)" by simp
  moreover from lt have "j + 1 \<le> j0" by simp
  moreover from Suc.prems(2)
  have "\<forall>j'. j + 1 \<le> j' \<and> j' < j0 \<longrightarrow> \<not> strcasecmp key (fst (kvs ! (b + j')))" by simp
  ultimately have "\<exists>p. params ! (b + j0) = Some p \<and>
      cstr buf (p_value p) = Some (snd (kvs ! (b + j0))) \<and>
      find_param key d (Some b) n (j + 1) = Some (Some (p_value p))"
    by (rule Suc.hyps(1))
  moreover from lt j0 p pl d miss
  have "find_param key d (Some b) n j = find_param key d (Some b) n (j + 1)"
    by (subst find_param.simps) (simp add: slot_def)
  ultimately show ?case by simp
qed

text \<open>The search of the section table goes to the first section whose name matches.\<close>

lemma find_section_first:
  assumes d: "confreader_fileBuf d = Some buf" "confreaderSects d = Some sects"
    and sm: "sects_match buf sects A" and cnt: "length A \<le> confreaderSectCount d"
    and named: "\<forall>i. 0 < i \<and> i < length A \<longrightarrow> fst (A ! i) \<noteq> None"
    and i0: "i0 < length A"
    and hit: "strcasecmp sec (the (fst (A ! i0)))"
  shows "0 < i \<Longrightarrow> i \<le> i0 \<Longrightarrow>
         \<forall>i'. i \<le> i' \<and> i' < i0 \<longrightarrow> \<not> strcasecmp sec (the (fst (A ! i'))) \<Longrightarrow>
         \<exists>s. sects ! i0 = Some s \<and>
             find_section key sec d i = find_param key d (s_params s) (s_size s) 0"
proof (induction "i0 - i" arbitrary: i)
  case 0
  then have i: "i = i0" by simp
  with 0 i0 named obtain nm where nm: "fst (A ! i0) = Some nm" by auto
  from sm i0 obtain s where s: "sects ! i0 = Some s"
    "sect_match buf s (A ! i0) (params_before A i0)"
    by (auto simp: sects_match_def)
  from s(2) nm obtain off where off: "s_name s = Some off" "cstr buf off = Some nm"
    by (auto simp: sect_match_def)
  from sm i0 have "i0 < length sects" by (simp add: sects_match_def)
  with i0 cnt d s off hit nm i show ?case
    by (subst find_section.simps) (simp add: slot_def)
next
  case (Suc x)
  then have lt: "i < i0" and miss: "\<not> strcasecmp sec (the (fst (A ! i)))" by auto
  from lt i0 have il: "i < length A" by simp
  with Suc.prems(1) named obtain nm where nm: "fst (A ! i) = Some nm" by auto
  from sm il obtain s where s: "sects ! i = Some s"
    "sect_match buf s (A ! i) (params_before A i)"
    by (auto simp: sects_match_def)
  from s(2) nm obtain off where off: "s_name s = Some off" "cstr buf off = Some nm"
    by (auto simp: sect_match_def)
  from sm il have sl: "i < length sects" by (simp add: sects_match_def)
  from Suc.hyps(2) have "x = i0 - (i + 1)" by simp
  moreover have "0 < i + 1" by simp
  moreover from lt have "i + 1 \<le> i0" by simp
  moreover from Suc.prems(3)
  have "\<forall>i'. i + 1 \<le> i' \<and> i' < i0 \<longrightarrow> \<not> strcasecmp sec (the (fst (A ! i')))" by simp
  ultimately have "\<exists>s. sects ! i0 = Some s \<and>
      find_section key sec d (i + 1) = find_param key d (s_params s) (s_size s) 0"
    by (rule Suc.hyps(1))
  moreover from il cnt d s off miss nm sl
  have "find_section key sec d i = find_section key sec d (i + 1)"
    by (subst find_section.simps) (simp add: slot_def)
  ultimately show ?case by simp
qed

text \<open>
  \<^verbatim>\<open>confreaderFind\<close> on tables that denote the document \<open>A\<close>: for parameter \<open>j\<close> of section \<open>i\<close>,
  asked for by a key that matches no parameter before it in its section and by a section
  name that matches no section before its own.
\<close>

lemma find_in_document:
  assumes d: "confreader_fileBuf d = Some buf" "confreaderSects d = Some sects"
      "confreader_params d = Some params"
    and sim: "sim buf sects params si pi A" and cnt: "length A \<le> confreaderSectCount d"
    and named: "\<forall>i. 0 < i \<and> i < length A \<longrightarrow> fst (A ! i) \<noteq> None"
    and i: "i < length A" and j: "j < length (snd (A ! i))"
    and sec: "if i = 0 then section = None
              else \<exists>sec. section = Some sec \<and> strcasecmp sec (the (fst (A ! i))) \<and>
                     (\<forall>i'. 0 < i' \<and> i' < i \<longrightarrow> \<not> strcasecmp sec (the (fst (A ! i'))))"
    and key: "strcasecmp key (fst (snd (A ! i) ! j))"
      "\<forall>j'<j. \<not> strcasecmp key (fst (snd (A ! i) ! j'))"
  shows "\<exists>v. confreaderFind key section d =
               Some (Some v, d\<lparr>confreaderErrorNum := CONFREADER_OK\<rparr>) \<and>
             cstr buf v = Some (snd (snd (A ! i) ! j))"
proof -
  let ?kvs = "concat (map snd A)" and ?b = "params_before A i"
  from sim have sm: "sects_match buf sects A" and pm: "params_match buf params ?kvs"
    by (simp_all add: sim_def)
  from sm i obtain s where s: "sects ! i = Some s" "sect_match buf s (A ! i) ?b"
    and il: "i < length sects"
    by (auto simp: sects_match_def)
  from s(2) j have sz: "s_size s = length (snd (A ! i))" and sp: "s_params s = Some ?b"
    by (auto simp: sect_match_def)
  note nth = concat_snd_nth [OF i]
  from key(1) nth(2) [OF j] have hit: "strcasecmp key (fst (?kvs ! (?b + j)))" by simp
  have miss: "\<forall>j'. 0 \<le> j' \<and> j' < j \<longrightarrow> \<not> strcasecmp key (fst (?kvs ! (?b + j')))"
  proof (intro allI impI)
    fix j' assume "0 \<le> j' \<and> j' < j"
    with j key(2) nth(2) [of j'] show "\<not> strcasecmp key (fst (?kvs ! (?b + j')))" by simp
  qed
  have "(0::nat) \<le> j" by simp
  from find_param_first [where j = 0, OF d(1,3) pm nth(1) j hit this miss]
  obtain p :: ConfreaderParam
    where p: "cstr buf (p_value p) = Some (snd (?kvs ! (?b + j)))"
    "find_param key d (Some ?b) (length (snd (A ! i))) 0 = Some (Some (p_value p))"
    by blast
  have "(if confreader_fileBuf d \<noteq> None then
           (case section of
              None \<Rightarrow>
                (case confreaderSects d of
                   None \<Rightarrow> None
                 | Some sects \<Rightarrow>
                     (case slot sects 0 of
                        None \<Rightarrow> None
                      | Some s \<Rightarrow> find_param key d (s_params s) (s_size s) 0))
            | Some sec \<Rightarrow> find_section key sec d 1)
         else Some None) = Some (Some (p_value p))"
  proof (cases "i = 0")
    case True
    with sec s il d p sz sp show ?thesis by (simp add: slot_def)
  next
    case False
    with sec obtain sc where sc: "section = Some sc" "strcasecmp sc (the (fst (A ! i)))"
      "\<forall>i'. 0 < i' \<and> i' < i \<longrightarrow> \<not> strcasecmp sc (the (fst (A ! i')))"
      by auto
    from sc(3) have miss_s: "\<forall>i'. 1 \<le> i' \<and> i' < i \<longrightarrow> \<not> strcasecmp sc (the (fst (A ! i')))"
      by simp
    from False have "(1::nat) \<le> i" by simp
    from find_section_first [where key = key, OF d(1,2) sm cnt named i sc(2) _ this miss_s] s(1)
    have "find_section key sc d 1 = find_param key d (s_params s) (s_size s) 0" by simp
    with sc(1) d p sz sp show ?thesis by simp
  qed
  then have "confreaderFind key section d =
      Some (Some (p_value p), d\<lparr>confreaderErrorNum := CONFREADER_OK\<rparr>)"
    by (simp add: confreaderFind_def)
  with p(1) nth(2) [OF j] show ?thesis by simp
qed




section \<open>The values of a parsed document\<close>


















end
